theory Spec2Isabelle
  imports Complex_Main
begin

section \<open>Date ranges around the flood event (\<^verbatim>\<open>date_utilize.py\<close>)\<close>

text \<open>
  \<^verbatim>\<open>get_date_ranges\<close> parses the event date with \<^verbatim>\<open>datetime.strptime(s, '%Y-%m-%d')\<close>,
  adds and subtracts \<^verbatim>\<open>timedelta(days=n)\<close> and prints each result with
  \<^verbatim>\<open>strftime('%Y-%m-%d')\<close>. The time of day stays at midnight throughout, so a
  \<^verbatim>\<open>datetime\<close> is modelled by its calendar date. Python's exceptions are values:
  \<^verbatim>\<open>ValueError\<close> from parsing, \<^verbatim>\<open>OverflowError\<close> from date arithmetic that leaves the
  years 1 to 9999, and \<^verbatim>\<open>EEException\<close> from the Earth Engine client when no session can be
  opened.
\<close>

datatype py_error = ValueError | OverflowError | EEException

datatype date = Date (year: int) (month: int) (day: int)

definition is_leap :: "int \<Rightarrow> bool" where
  "is_leap y = (y mod 4 = 0 \<and> (y mod 100 \<noteq> 0 \<or> y mod 400 = 0))"

definition days_before_year :: "int \<Rightarrow> int" where
  "days_before_year y = (let y' = y - 1 in y' * 365 + y' div 4 - y' div 100 + y' div 400)"

definition DAYS_IN_MONTH :: "int \<Rightarrow> int" where
  "DAYS_IN_MONTH m =
     (if m = 2 then 28 else if m = 4 \<or> m = 6 \<or> m = 9 \<or> m = 11 then 30 else 31)"

definition DAYS_BEFORE_MONTH :: "int \<Rightarrow> int" where
  "DAYS_BEFORE_MONTH m =
     (if m = 1 then 0 else if m = 2 then 31 else if m = 3 then 59 else if m = 4 then 90
      else if m = 5 then 120 else if m = 6 then 151 else if m = 7 then 181
      else if m = 8 then 212 else if m = 9 then 243 else if m = 10 then 273
      else if m = 11 then 304 else 334)"

definition days_in_month :: "int \<Rightarrow> int \<Rightarrow> int" where
  "days_in_month y m = (if m = 2 \<and> is_leap y then 29 else DAYS_IN_MONTH m)"

definition days_before_month :: "int \<Rightarrow> int \<Rightarrow> int" where
  "days_before_month y m = DAYS_BEFORE_MONTH m + (if m > 2 \<and> is_leap y then 1 else 0)"

definition ymd2ord :: "int \<Rightarrow> int \<Rightarrow> int \<Rightarrow> int" where
  "ymd2ord y m d = days_before_year y + days_before_month y m + d"

definition yday2md :: "bool \<Rightarrow> int \<Rightarrow> int \<times> int" where
  "yday2md leapyear n =
     (let month = (n + 50) div 32;
          preceding = DAYS_BEFORE_MONTH month + (if month > 2 \<and> leapyear then 1 else 0)
      in if preceding > n
         then (let month' = month - 1;
                   preceding' = preceding
                      - (DAYS_IN_MONTH month' + (if month' = 2 \<and> leapyear then 1 else 0))
               in (month', n - preceding' + 1))
         else (month, n - preceding + 1))"

definition ord2ymd :: "int \<Rightarrow> date" where
  "ord2ymd n =
     (let n0 = n - 1;
          n400 = n0 div 146097; r1 = n0 mod 146097;
          n100 = r1 div 36524; r2 = r1 mod 36524;
          n4 = r2 div 1461; r3 = r2 mod 1461;
          n1 = r3 div 365; r4 = r3 mod 365;
          y = n400 * 400 + 1 + (n100 * 100 + n4 * 4 + n1)
      in if n1 = 4 \<or> n100 = 4 then Date (y - 1) 12 31
         else (let leapyear = (n1 = 3 \<and> (n4 \<noteq> 24 \<or> n100 = 3));
                   md = yday2md leapyear r4
               in Date y (fst md) (snd md)))"

text \<open>
  The proleptic Gregorian ordinal of a date (\<^verbatim>\<open>date.toordinal\<close>): day 1 is 0001-01-01.
  The functions above follow the pure-Python \<^verbatim>\<open>datetime\<close> module (\<^verbatim>\<open>_is_leap\<close>,
  \<^verbatim>\<open>_days_before_year\<close>, \<^verbatim>\<open>_days_in_month\<close>, \<^verbatim>\<open>_days_before_month\<close>, \<^verbatim>\<open>_ymd2ord\<close>,
  \<^verbatim>\<open>_ord2ymd\<close>); Python's \<^verbatim>\<open>divmod\<close> and \<^verbatim>\<open>>>\<close> on the non-negative numbers that
  occur are \<open>div\<close> and \<open>mod\<close>.
\<close>

definition toordinal :: "date \<Rightarrow> int" where
  "toordinal d = ymd2ord (year d) (month d) (day d)"

subsection \<open>Parsing and printing\<close>

text \<open>
  \<^verbatim>\<open>strptime\<close> matches the whole string against the pattern of \<^verbatim>\<open>%Y-%m-%d\<close>:
  four digits, a hyphen, a month \<^verbatim>\<open>1[0-2]|0[1-9]|[1-9]\<close>, a hyphen and a day
  \<^verbatim>\<open>3[0-1]|[1-2]\d|0[1-9]|[1-9]| [1-9]\<close>; anything else, trailing text included, is a
  \<^verbatim>\<open>ValueError\<close>, and so is a date that the calendar does not have (year 0, 30 February).
  Strings are ASCII. \<^verbatim>\<open>strftime\<close> hands the format to the C library: \<^verbatim>\<open>%Y\<close> prints the
  year as a plain decimal number, without leading zeros (\<^verbatim>\<open>999-12-16\<close> for a day of the year
  999), and \<^verbatim>\<open>%m\<close> and \<^verbatim>\<open>%d\<close> print two digits, zero-filled.
\<close>

definition MAXORDINAL :: int where
  "MAXORDINAL = 3652059"

definition digit :: "char \<Rightarrow> int option" where
  "digit c = (let n = of_char c :: int in if 48 \<le> n \<and> n \<le> 57 then Some (n - 48) else None)"

fun parse_day :: "string \<Rightarrow> int option" where
  "parse_day [d1] =
     (case digit d1 of Some v \<Rightarrow> if 1 \<le> v then Some v else None | None \<Rightarrow> None)"
| "parse_day [d1, d2] =
     (case digit d2 of
        None \<Rightarrow> None
      | Some v2 \<Rightarrow>
          if d1 = CHR '' '' then (if 1 \<le> v2 then Some v2 else None)
          else (case digit d1 of
                  None \<Rightarrow> None
                | Some v1 \<Rightarrow>
                    if v1 = 3 then (if v2 \<le> 1 then Some (30 + v2) else None)
                    else if v1 = 1 \<or> v1 = 2 then Some (10 * v1 + v2)
                    else if v1 = 0 then (if 1 \<le> v2 then Some v2 else None)
                    else None))"
| "parse_day _ = None"

fun parse_month_day :: "string \<Rightarrow> (int \<times> int) option" where
  "parse_month_day (m1 # m2 # r) =
     (if m2 = CHR ''-''
      then (case digit m1 of
              Some v \<Rightarrow> if 1 \<le> v then map_option (Pair v) (parse_day r) else None
            | None \<Rightarrow> None)
      else (case r of
              [] \<Rightarrow> None
            | s # r' \<Rightarrow>
                if s \<noteq> CHR ''-'' then None
                else (case (digit m1, digit m2) of
                        (Some v1, Some v2) \<Rightarrow>
                          if v1 = 1 \<and> v2 \<le> 2 then map_option (Pair (10 + v2)) (parse_day r')
                          else if v1 = 0 \<and> 1 \<le> v2 then map_option (Pair v2) (parse_day r')
                          else None
                      | _ \<Rightarrow> None)))"
| "parse_month_day _ = None"

fun strptime_ymd :: "string \<Rightarrow> (int \<times> int \<times> int) option" where
  "strptime_ymd (y1 # y2 # y3 # y4 # s # r) =
     (if s \<noteq> CHR ''-'' then None
      else (case (digit y1, digit y2, digit y3, digit y4) of
              (Some a, Some b, Some c, Some d) \<Rightarrow>
                map_option (Pair (1000 * a + 100 * b + 10 * c + d)) (parse_month_day r)
            | _ \<Rightarrow> None))"
| "strptime_ymd _ = None"

definition parse :: "string \<Rightarrow> py_error + date" where
  "parse date_str =
     (case strptime_ymd date_str of
        None \<Rightarrow> Inl ValueError
      | Some (y, m, d) \<Rightarrow>
          if 1 \<le> y \<and> y \<le> 9999 \<and> 1 \<le> m \<and> m \<le> 12 \<and> 1 \<le> d \<and> d \<le> days_in_month y m
          then Inr (Date y m d) else Inl ValueError)"

definition digit_char :: "int \<Rightarrow> char" where
  "digit_char n = ''0123456789'' ! nat n"

definition pad2 :: "int \<Rightarrow> string" where
  "pad2 n = [digit_char (n div 10 mod 10), digit_char (n mod 10)]"

definition year_digits :: "int \<Rightarrow> string" where
  "year_digits y =
     (if y < 10 then [digit_char y]
      else if y < 100 then [digit_char (y div 10), digit_char (y mod 10)]
      else if y < 1000
        then [digit_char (y div 100), digit_char (y div 10 mod 10), digit_char (y mod 10)]
      else [digit_char (y div 1000), digit_char (y div 100 mod 10),
            digit_char (y div 10 mod 10), digit_char (y mod 10)])"

definition format_date :: "date \<Rightarrow> string" where
  "format_date date_obj =
     year_digits (year date_obj) @ ''-'' @ pad2 (month date_obj) @ ''-'' @ pad2 (day date_obj)"

definition timedelta :: "int \<Rightarrow> py_error + int" where
  "timedelta days = (if \<bar>days\<bar> \<le> 999999999 then Inr days else Inl OverflowError)"

definition date_add :: "date \<Rightarrow> int \<Rightarrow> py_error + date" where
  "date_add dt delta =
     (let ordinal = toordinal dt + delta
      in if 0 < ordinal \<and> ordinal \<le> MAXORDINAL then Inr (ord2ymd ordinal)
         else Inl OverflowError)"

definition date_sub :: "date \<Rightarrow> int \<Rightarrow> py_error + date" where
  "date_sub dt delta = date_add dt (- delta)"

definition then_do :: "'e + 'a \<Rightarrow> ('a \<Rightarrow> 'e + 'b) \<Rightarrow> 'e + 'b" where
  "then_do r f = (case r of Inl e \<Rightarrow> Inl e | Inr x \<Rightarrow> f x)"

definition get_date_ranges ::
    "string \<Rightarrow> int \<Rightarrow> int \<Rightarrow> int \<Rightarrow> py_error + (string \<times> string \<times> string \<times> string)" where
  "get_date_ranges event_date_str post_lag days_before_start days_before_end =
     then_do (parse event_date_str) (\<lambda>event_date.
     then_do (timedelta 1) (\<lambda>one.
     then_do (date_add event_date one) (\<lambda>post_start.
     then_do (timedelta post_lag) (\<lambda>lag.
     then_do (date_add event_date lag) (\<lambda>post_end.
     then_do (timedelta days_before_start) (\<lambda>before_start.
     then_do (date_sub event_date before_start) (\<lambda>ref_start.
     then_do (timedelta days_before_end) (\<lambda>before_end.
     then_do (date_sub event_date before_end) (\<lambda>ref_end.
       Inr (format_date post_start, format_date post_end,
            format_date ref_start, format_date ref_end))))))))))"

subsection \<open>The calendar, stated day by day\<close>

text \<open>
  The calendar that the date ranges are measured against: the day after and the day before
  a date, defined from the lengths of the months alone and with no day numbers.
  \<open>(next_day ^^ n) d\<close> is the date \<open>n\<close> days after \<open>d\<close>.
\<close>

definition valid_date :: "date \<Rightarrow> bool" where
  "valid_date d = (1 \<le> year d \<and> 1 \<le> month d \<and> month d \<le> 12 \<and> 1 \<le> day d
       \<and> day d \<le> days_in_month (year d) (month d))"

definition next_day :: "date \<Rightarrow> date" where
  "next_day d =
     (if day d < days_in_month (year d) (month d) then Date (year d) (month d) (day d + 1)
      else if month d < 12 then Date (year d) (month d + 1) 1
      else Date (year d + 1) 1 1)"

definition prev_day :: "date \<Rightarrow> date" where
  "prev_day d =
     (if 1 < day d then Date (year d) (month d) (day d - 1)
      else if 1 < month d then Date (year d) (month d - 1) (days_in_month (year d) (month d - 1))
      else Date (year d - 1) 12 31)"

text \<open>
  The form \<^verbatim>\<open>YYYY-MM-DD\<close>, stated by reading a string and not by printing a date: ten
  characters, hyphens in the fifth and the eighth place, decimal digits elsewhere, and the
  three numbers read from the digits are the year, the month and the day.
\<close>

definition is_digit :: "char \<Rightarrow> bool" where
  "is_digit c = (48 \<le> (of_char c :: int) \<and> (of_char c :: int) \<le> 57)"

definition decimal :: "string \<Rightarrow> int" where
  "decimal cs = foldl (\<lambda>a c. 10 * a + (of_char c - 48)) 0 cs"

definition iso_date_string :: "date \<Rightarrow> string \<Rightarrow> bool" where
  "iso_date_string d s =
     (length s = 10 \<and> s ! 4 = CHR ''-'' \<and> s ! 7 = CHR ''-''
      \<and> list_all is_digit (take 4 s) \<and> list_all is_digit (take 2 (drop 5 s))
      \<and> list_all is_digit (drop 8 s)
      \<and> decimal (take 4 s) = year d \<and> decimal (take 2 (drop 5 s)) = month d
      \<and> decimal (drop 8 s) = day d)"

section \<open>Earth Engine values\<close>

text \<open>
  Every other module builds Earth Engine objects. The client only records a computation;
  the value of an \<^verbatim>\<open>ee.Image\<close> or \<^verbatim>\<open>ee.ImageCollection\<close> is what the service computes
  when the object is evaluated. The model gives each expression that value.

  A raster assigns to each pixel of the 10 m grid a value, or nothing where the pixel is
  masked. Band values are rationals: the comparisons that the code makes (\<^verbatim>\<open>eq\<close>,
  \<^verbatim>\<open>gte\<close>, the maximum of the cluster means) are exact on them, and the rounding of
  floating-point arithmetic is not modelled. An image carries one band and its
  properties; a property that is absent reads as \<^verbatim>\<open>null\<close>, here \<open>None\<close>.
\<close>

type_synonym pixel = "int \<times> int"

type_synonym raster = "pixel \<Rightarrow> rat option"

datatype pval = PStr string | PNum rat

type_synonym props = "string \<Rightarrow> pval option"

text \<open>An error that the service reports when a computation is evaluated.\<close>

datatype ee_error = ComputationError string

record image =
  band :: string
  px :: raster
  props :: props

text \<open>
  A Sentinel-2 scene as \<^verbatim>\<open>load_s2_collection\<close> selects it: the bands \<^verbatim>\<open>B3\<close>, \<^verbatim>\<open>B8\<close> and
  \<^verbatim>\<open>SCL\<close>, its footprint, and the two properties that the pipeline reads,
  \<^verbatim>\<open>system:time_start\<close> (milliseconds since 1970-01-01) and \<^verbatim>\<open>CLOUDY_PIXEL_PERCENTAGE\<close>.
\<close>

record 'g scene =
  B3 :: raster
  B8 :: raster
  SCL :: raster
  footprint :: 'g
  time_start :: int
  CLOUDY_PIXEL_PERCENTAGE :: rat

text \<open>
  The image that \<^verbatim>\<open>_prepare\<close> makes of a scene, with the bands \<^verbatim>\<open>NDWI\<close> and
  \<^verbatim>\<open>cloud_mask\<close>; \<^verbatim>\<open>add_date\<close> of \<^verbatim>\<open>mosaic_s2\<close> sets its \<^verbatim>\<open>date\<close> property.
\<close>

record 'g ndwi_image =
  NDWI :: raster
  cloud_mask :: raster
  geometry :: 'g
  system_time_start :: int
  date_prop :: "string option"

text \<open>A daily mosaic: the two bands and the properties that \<^verbatim>\<open>mosaic_on_date\<close> sets.\<close>

record mosaic_image =
  m_NDWI :: raster
  m_cloud_mask :: raster
  m_props :: props

text \<open>
  What the code asks of the service and does not determine itself is a parameter of the
  model, for any type \<open>'g\<close> of geometries: the pixels of the 10 m grid inside a region, the
  geometry operations behind \<^verbatim>\<open>ImageCollection.geometry\<close>, \<^verbatim>\<open>dissolve\<close>, \<^verbatim>\<open>contains\<close> (with
  its error margin), \<^verbatim>\<open>filterBounds\<close> and \<^verbatim>\<open>clip\<close>, the pixels that \<^verbatim>\<open>sample\<close> draws for a
  region, a pixel count and a seed, the classifier that \<^verbatim>\<open>wekaKMeans(k).train\<close> returns for
  the sampled values, the median reducer, \<^verbatim>\<open>ee.Number.round\<close>, and the two catalogues
  \<^verbatim>\<open>COPERNICUS/S2_SR_HARMONIZED\<close> and \<^verbatim>\<open>JRC/GSW1_4/YearlyHistory\<close> (each yearly image as
  its \<^verbatim>\<open>system:time_start\<close> and its \<^verbatim>\<open>waterClass\<close> band).
\<close>

record 'g ee_backend =
  geom_pixels :: "'g \<Rightarrow> pixel list"
  geom_union :: "'g list \<Rightarrow> 'g"
  geom_dissolve :: "'g \<Rightarrow> 'g"
  geom_contains :: "'g \<Rightarrow> 'g \<Rightarrow> rat \<Rightarrow> bool"
  geom_intersects :: "'g \<Rightarrow> 'g \<Rightarrow> bool"
  geom_intersection :: "'g \<Rightarrow> 'g \<Rightarrow> 'g"
  sample_pixels :: "'g \<Rightarrow> nat \<Rightarrow> nat \<Rightarrow> pixel list"
  train_kmeans :: "nat \<Rightarrow> rat list \<Rightarrow> rat \<Rightarrow> nat"
  reduce_median :: "rat list \<Rightarrow> rat"
  number_round :: "rat \<Rightarrow> int"
  s2_sr_harmonized :: "'g scene list"
  jrc_yearly_history :: "(int \<times> raster) list"

subsection \<open>Image operations\<close>

text \<open>
  The operations follow the Earth Engine API reference. A comparison with a constant
  (\<^verbatim>\<open>eq\<close>, \<^verbatim>\<open>gt\<close>, \<^verbatim>\<open>gte\<close>) and \<^verbatim>\<open>Or\<close> give 1 or 0 where their inputs are unmasked, and
  a new image that carries none of the input's properties; this is why the code sets
  \<^verbatim>\<open>system:time_start\<close> again after each of them. \<^verbatim>\<open>where\<close>, \<^verbatim>\<open>updateMask\<close>,
  \<^verbatim>\<open>selfMask\<close>, \<^verbatim>\<open>unmask\<close>, \<^verbatim>\<open>rename\<close>, \<^verbatim>\<open>clip\<close> and \<^verbatim>\<open>set\<close> retain the metadata of
  their input; \<^verbatim>\<open>toFloat\<close> and \<^verbatim>\<open>cluster\<close> are taken to retain it as well.
\<close>

definition no_props :: props where
  "no_props = (\<lambda>k. None)"

definition image_eq :: "image \<Rightarrow> rat \<Rightarrow> image" where
  "image_eq img c =
     \<lparr>band = band img,
      px = (\<lambda>p. map_option (\<lambda>v. if v = c then 1 else 0) (px img p)),
      props = no_props\<rparr>"

definition image_gt :: "image \<Rightarrow> rat \<Rightarrow> image" where
  "image_gt img c =
     \<lparr>band = band img,
      px = (\<lambda>p. map_option (\<lambda>v. if v > c then 1 else 0) (px img p)),
      props = no_props\<rparr>"

definition image_gte :: "image \<Rightarrow> rat \<Rightarrow> image" where
  "image_gte img c =
     \<lparr>band = band img,
      px = (\<lambda>p. map_option (\<lambda>v. if v \<ge> c then 1 else 0) (px img p)),
      props = no_props\<rparr>"

definition image_Or :: "image \<Rightarrow> image \<Rightarrow> image" where
  "image_Or a b =
     \<lparr>band = band a,
      px = (\<lambda>p. case px a p of
                   None \<Rightarrow> None
                 | Some x \<Rightarrow> map_option (\<lambda>y. if x \<noteq> 0 \<or> y \<noteq> 0 then 1 else 0) (px b p)),
      props = no_props\<rparr>"

text \<open>
  \<^verbatim>\<open>input.where(test, value)\<close> with a constant value: where the input is masked nothing
  is done; where the test is masked or zero the input value is kept; elsewhere the value
  replaces it.
\<close>

definition image_where :: "image \<Rightarrow> image \<Rightarrow> rat \<Rightarrow> image" where
  "image_where input test val =
     input\<lparr>px := (\<lambda>p. case px input p of
                          None \<Rightarrow> None
                        | Some v \<Rightarrow>
                            (case px test p of
                               None \<Rightarrow> Some v
                             | Some t \<Rightarrow> if t \<noteq> 0 then Some val else Some v))\<rparr>"

text \<open>
  \<^verbatim>\<open>updateMask\<close> keeps a pixel where it is unmasked already and the mask image is
  unmasked and not zero.
\<close>

definition updateMask :: "image \<Rightarrow> image \<Rightarrow> image" where
  "updateMask input msk =
     input\<lparr>px := (\<lambda>p. case px input p of
                          None \<Rightarrow> None
                        | Some v \<Rightarrow>
                            (case px msk p of
                               None \<Rightarrow> None
                             | Some m \<Rightarrow> if m \<noteq> 0 then Some v else None))\<rparr>"

definition selfMask :: "image \<Rightarrow> image" where
  "selfMask img = updateMask img img"

definition unmask :: "image \<Rightarrow> rat \<Rightarrow> image" where
  "unmask img v = img\<lparr>px := (\<lambda>p. Some (case px img p of None \<Rightarrow> v | Some x \<Rightarrow> x))\<rparr>"

definition rename :: "image \<Rightarrow> string \<Rightarrow> image" where
  "rename img name = img\<lparr>band := name\<rparr>"

definition toFloat :: "image \<Rightarrow> image" where
  "toFloat img = img"

definition image_get :: "image \<Rightarrow> string \<Rightarrow> pval option" where
  "image_get img key = props img key"

text \<open>Setting a property to \<^verbatim>\<open>null\<close> leaves the image without it.\<close>

definition image_set :: "image \<Rightarrow> string \<Rightarrow> pval option \<Rightarrow> image" where
  "image_set img key val = img\<lparr>props := (props img)(key := val)\<rparr>"

definition clip_raster :: "'g ee_backend \<Rightarrow> raster \<Rightarrow> 'g \<Rightarrow> raster" where
  "clip_raster be r roi = (\<lambda>p. if p \<in> set (geom_pixels be roi) then r p else None)"

definition clip :: "'g ee_backend \<Rightarrow> image \<Rightarrow> 'g \<Rightarrow> image" where
  "clip be img roi = img\<lparr>px := clip_raster be (px img) roi\<rparr>"

text \<open>
  \<^verbatim>\<open>normalizedDifference\<close> is \<open>(a - b) / (a + b)\<close>, masked where a band is masked or
  negative; where both bands are zero the quotient is taken as 0.
\<close>

definition normalizedDifference :: "raster \<Rightarrow> raster \<Rightarrow> raster" where
  "normalizedDifference a b =
     (\<lambda>p. case a p of
            None \<Rightarrow> None
          | Some x \<Rightarrow>
              (case b p of
                 None \<Rightarrow> None
               | Some y \<Rightarrow> if x < 0 \<or> y < 0 then None else Some ((x - y) / (x + y))))"

text \<open>
  \<^verbatim>\<open>connectedPixelCount(maxSize, eightConnected=True)\<close>: two pixels are neighbours when
  they differ by at most one in each coordinate; the patch of an unmasked pixel is every
  pixel reached from it through neighbours of the same value; the result at the pixel is
  the size of its patch, or \<^verbatim>\<open>maxSize\<close> when the patch has more pixels than that.
\<close>

definition adjacent8 :: "pixel \<Rightarrow> pixel \<Rightarrow> bool" where
  "adjacent8 p q = (p \<noteq> q \<and> \<bar>fst p - fst q\<bar> \<le> 1 \<and> \<bar>snd p - snd q\<bar> \<le> 1)"

definition patch_step :: "raster \<Rightarrow> (pixel \<times> pixel) set" where
  "patch_step r = {(p, q). adjacent8 p q \<and> r p \<noteq> None \<and> r q = r p}"

definition patch :: "raster \<Rightarrow> pixel \<Rightarrow> pixel set" where
  "patch r p = {q. (p, q) \<in> (patch_step r)\<^sup>*}"

definition connectedPixelCount :: "nat \<Rightarrow> image \<Rightarrow> image" where
  "connectedPixelCount maxSize img =
     \<lparr>band = band img,
      px = (\<lambda>p. case px img p of
                   None \<Rightarrow> None
                 | Some v \<Rightarrow>
                     Some (if finite (patch (px img) p) \<and> card (patch (px img) p) \<le> maxSize
                           then of_nat (card (patch (px img) p)) else of_nat maxSize)),
      props = no_props\<rparr>"

subsection \<open>Reducers, lists, dates and collections\<close>

text \<open>
  \<^verbatim>\<open>reduceRegion\<close> with the mean reducer averages the unmasked pixels of the region and
  gives \<^verbatim>\<open>null\<close> when there is none (pixels weigh the same here). Reducing a list with the
  maximum reducer skips \<^verbatim>\<open>null\<close> entries and gives \<^verbatim>\<open>null\<close> when nothing is left.
  \<^verbatim>\<open>List.indexOf\<close> is the position of the first occurrence, or -1.
\<close>

definition reduceRegion_mean :: "'g ee_backend \<Rightarrow> image \<Rightarrow> 'g \<Rightarrow> rat option" where
  "reduceRegion_mean be img region =
     (let vals = List.map_filter (px img) (geom_pixels be region)
      in if vals = [] then None else Some (sum_list vals / of_nat (length vals)))"

fun list_reduce_max :: "rat option list \<Rightarrow> rat option" where
  "list_reduce_max [] = None"
| "list_reduce_max (None # xs) = list_reduce_max xs"
| "list_reduce_max (Some v # xs) =
     (case list_reduce_max xs of None \<Rightarrow> Some v | Some m \<Rightarrow> Some (max v m))"

fun list_indexOf :: "rat option list \<Rightarrow> rat \<Rightarrow> int" where
  "list_indexOf [] v = - 1"
| "list_indexOf (x # xs) v =
     (if x = Some v then 0
      else (let i = list_indexOf xs v in if i < 0 then - 1 else i + 1))"

text \<open>\<^verbatim>\<open>List.distinct\<close> keeps the first occurrence of each element.\<close>

fun list_distinct :: "'a list \<Rightarrow> 'a list" where
  "list_distinct [] = []"
| "list_distinct (x # xs) = x # list_distinct (filter (\<lambda>y. y \<noteq> x) xs)"

text \<open>
  \<^verbatim>\<open>ee.Date(millis).format('YYYY-MM-dd')\<close> and \<^verbatim>\<open>ee.Date(string).millis()\<close>, in UTC, on the
  calendar of the first section (day 719163 is 1970-01-01). The pattern \<^verbatim>\<open>YYYY\<close> of the
  service prints the year with at least four digits, zero-filled.
\<close>

definition ee_year_digits :: "int \<Rightarrow> string" where
  "ee_year_digits y = [digit_char (y div 1000 mod 10), digit_char (y div 100 mod 10),
                       digit_char (y div 10 mod 10), digit_char (y mod 10)]"

definition ee_date_format :: "int \<Rightarrow> string" where
  "ee_date_format millis =
     (let d = ord2ymd (719163 + millis div 86400000)
      in ee_year_digits (year d) @ ''-'' @ pad2 (month d) @ ''-'' @ pad2 (day d))"

definition ee_date_millis :: "string \<Rightarrow> int option" where
  "ee_date_millis s =
     (case parse s of Inl e \<Rightarrow> None | Inr d \<Rightarrow> Some ((toordinal d - 719163) * 86400000))"

text \<open>
  \<^verbatim>\<open>filterDate(start, end)\<close> keeps the elements whose time lies in the half-open range;
  the service refuses a range that is empty.
\<close>

definition filterDate ::
    "('a \<Rightarrow> int) \<Rightarrow> 'a list \<Rightarrow> string \<Rightarrow> string \<Rightarrow> ee_error + 'a list" where
  "filterDate t coll start_date end_date =
     (case ee_date_millis start_date of
        None \<Rightarrow> Inl (ComputationError ''Invalid date'')
      | Some a \<Rightarrow>
          (case ee_date_millis end_date of
             None \<Rightarrow> Inl (ComputationError ''Invalid date'')
           | Some b \<Rightarrow>
               if a < b then Inr (filter (\<lambda>x. a \<le> t x \<and> t x < b) coll)
               else Inl (ComputationError ''Empty date ranges not supported'')))"

text \<open>
  Mapping a function over a collection evaluates it on every element; an error on one
  element is the error of the whole collection.
\<close>

fun map_collection :: "('a \<Rightarrow> ee_error + 'b) \<Rightarrow> 'a list \<Rightarrow> ee_error + 'b list" where
  "map_collection f [] = Inr []"
| "map_collection f (x # xs) =
     then_do (f x) (\<lambda>y. then_do (map_collection f xs) (\<lambda>ys. Inr (y # ys)))"

definition collection_sum :: "image list \<Rightarrow> raster" where
  "collection_sum imgs =
     (\<lambda>p. let vals = List.map_filter (\<lambda>img. px img p) imgs
          in if vals = [] then None else Some (sum_list vals))"

definition collection_median ::
    "'g ee_backend \<Rightarrow> ('g ndwi_image \<Rightarrow> raster) \<Rightarrow> 'g ndwi_image list \<Rightarrow> raster" where
  "collection_median be b imgs =
     (\<lambda>p. let vals = List.map_filter (\<lambda>img. b img p) imgs
          in if vals = [] then None else Some (reduce_median be vals))"

section \<open>Loading scenes and permanent water (\<^verbatim>\<open>upload.py\<close>)\<close>

text \<open>
  \<^verbatim>\<open>load_s2_collection\<close> filters the catalogue by bounds, date range and cloud cover, and
  clips every scene to the area of interest. \<^verbatim>\<open>get_permanent_water\<close> takes the five
  latest yearly images before the reference date, marks \<^verbatim>\<open>waterClass\<close> 3 in each, sums
  them, unmasks with 0 and compares with 0.
\<close>

definition clip_scene :: "'g ee_backend \<Rightarrow> 'g \<Rightarrow> 'g scene \<Rightarrow> 'g scene" where
  "clip_scene be aoi img =
     img\<lparr>B3 := clip_raster be (B3 img) aoi, B8 := clip_raster be (B8 img) aoi,
         SCL := clip_raster be (SCL img) aoi,
         footprint := geom_intersection be (footprint img) aoi\<rparr>"

definition load_s2_collection ::
    "'g ee_backend \<Rightarrow> 'g \<Rightarrow> string \<Rightarrow> string \<Rightarrow> rat \<Rightarrow> ee_error + 'g scene list" where
  "load_s2_collection be aoi start_date end_date cloud_threshold =
     then_do
       (filterDate time_start
          (filter (\<lambda>img. geom_intersects be (footprint img) aoi) (s2_sr_harmonized be))
          start_date end_date)
       (\<lambda>in_range.
          Inr (map (clip_scene be aoi)
                 (filter (\<lambda>img. CLOUDY_PIXEL_PERCENTAGE img < cloud_threshold) in_range)))"

definition get_permanent_water :: "'g ee_backend \<Rightarrow> string \<Rightarrow> ee_error + image" where
  "get_permanent_water be reference_date =
     then_do (filterDate fst (jrc_yearly_history be) ''1985-01-01'' reference_date)
       (\<lambda>history.
          let recent = take 5 (rev (sort_key fst history));
              water = map (\<lambda>yearly. image_eq
                             \<lparr>band = ''waterClass'', px = snd yearly, props = no_props\<rparr> 3) recent;
              total = \<lparr>band = ''waterClass'', px = collection_sum water, props = no_props\<rparr>;
              water_history = image_gt (unmask total 0) 0
          in Inr (rename water_history ''permanent_water''))"

section \<open>Cloud mask and patch filter (\<^verbatim>\<open>filter.py\<close>)\<close>

text \<open>
  \<^verbatim>\<open>min_pixels\<close> is \<^verbatim>\<open>ee.Number(min_area).divide(100).round()\<close>, and \<^verbatim>\<open>process_image\<close>
  the function that \<^verbatim>\<open>remove_small_area\<close> maps over the flood masks.
\<close>

definition min_pixels :: "'g ee_backend \<Rightarrow> rat \<Rightarrow> int" where
  "min_pixels be min_area = number_round be (min_area / 100)"

definition process_image :: "'g ee_backend \<Rightarrow> 'g \<Rightarrow> rat \<Rightarrow> image \<Rightarrow> image" where
  "process_image be roi min_area img =
     (let date = image_get img ''date'';
          threshold = min_pixels be min_area;
          patch_sizes = connectedPixelCount 128 img;
          cleaned = clip be (updateMask img (image_gte patch_sizes (of_int threshold))) roi;
          depth = toFloat (selfMask (rename cleaned ''depth''))
      in image_set depth ''date'' date)"

definition remove_small_area :: "'g ee_backend \<Rightarrow> image list \<Rightarrow> 'g \<Rightarrow> rat \<Rightarrow> image list" where
  "remove_small_area be mask_collection roi min_area =
     map (process_image be roi min_area) mask_collection"

definition scene_props :: "'g scene \<Rightarrow> props" where
  "scene_props img =
     no_props(''system:time_start'' \<mapsto> PNum (of_int (time_start img)),
              ''CLOUDY_PIXEL_PERCENTAGE'' \<mapsto> PNum (CLOUDY_PIXEL_PERCENTAGE img))"

definition mask_clouds :: "'g scene \<Rightarrow> image" where
  "mask_clouds img =
     (let scl = \<lparr>band = ''SCL'', px = SCL img, props = scene_props img\<rparr>;
          cloud_shadow = image_eq scl 3;
          cloud = image_eq scl 8;
          cirrus = image_eq scl 9;
          cloud_mask = rename (image_Or (image_Or cloud_shadow cloud) cirrus) ''cloud_mask''
      in cloud_mask\<lparr>props := scene_props img\<rparr>)"

section \<open>Classification (\<^verbatim>\<open>threshold.py\<close>)\<close>

text \<open>
  \<^verbatim>\<open>cluster_assignment\<close> is the image \<^verbatim>\<open>clustered\<close> of \<^verbatim>\<open>classify_kmeans\<close>, and
  \<^verbatim>\<open>cluster_means\<close> the list \<^verbatim>\<open>means\<close> that its loop builds. The flood cluster is
  \<^verbatim>\<open>ee.List(means).indexOf(ee.List(means).reduce(ee.Reducer.max()))\<close>; when no mean is
  defined the maximum is \<^verbatim>\<open>null\<close>, which \<^verbatim>\<open>indexOf\<close> does not accept as its argument.
\<close>

definition image_cluster :: "image \<Rightarrow> (rat \<Rightarrow> nat) \<Rightarrow> image" where
  "image_cluster img clusterer =
     img\<lparr>band := ''cluster'', px := (\<lambda>p. map_option (\<lambda>v. of_nat (clusterer v)) (px img p))\<rparr>"

definition cluster_means :: "'g ee_backend \<Rightarrow> image \<Rightarrow> image \<Rightarrow> 'g \<Rightarrow> nat \<Rightarrow> rat option list" where
  "cluster_means be ndwi_img clustered aoi n_clusters =
     map (\<lambda>i. let cluster_mask = image_eq clustered (of_nat i);
                  masked_ndwi = updateMask ndwi_img cluster_mask
              in reduceRegion_mean be masked_ndwi aoi)
       [0..<n_clusters]"

definition cluster_assignment :: "'g ee_backend \<Rightarrow> image \<Rightarrow> 'g \<Rightarrow> nat \<Rightarrow> image" where
  "cluster_assignment be ndwi_img aoi n_clusters =
     (let training = List.map_filter (px ndwi_img) (sample_pixels be aoi 20000 42);
          clusterer = train_kmeans be n_clusters training
      in rename (image_cluster ndwi_img clusterer) ''raw_cluster'')"

definition classify_kmeans :: "'g ee_backend \<Rightarrow> image \<Rightarrow> 'g \<Rightarrow> nat \<Rightarrow> ee_error + image" where
  "classify_kmeans be ndwi_img aoi n_clusters =
     (let clustered = cluster_assignment be ndwi_img aoi n_clusters;
          means = cluster_means be ndwi_img clustered aoi n_clusters
      in case list_reduce_max means of
           None \<Rightarrow> Inl (ComputationError ''List.indexOf: Parameter 'element' is required.'')
         | Some highest \<Rightarrow>
             (let flood_cluster = list_indexOf means highest;
                  flood_mask = rename (image_eq clustered (of_int flood_cluster)) ''flood_class''
              in Inr (image_set flood_mask ''system:time_start''
                        (image_get ndwi_img ''system:time_start''))))"

section \<open>Daily mosaics (\<^verbatim>\<open>mosaic.py\<close>)\<close>

text \<open>
  \<^verbatim>\<open>covers\<close> is the coverage test of \<^verbatim>\<open>mosaic_on_date\<close>:
  \<^verbatim>\<open>daily.geometry().dissolve().contains(roi, ee.ErrorMargin(10))\<close>. A date that fails it
  yields \<^verbatim>\<open>None\<close>, which \<^verbatim>\<open>removeAll([None])\<close> drops from the list of mosaics.
\<close>

definition add_date :: "'g ndwi_image \<Rightarrow> 'g ndwi_image" where
  "add_date img = img\<lparr>date_prop := Some (ee_date_format (system_time_start img))\<rparr>"

definition covers :: "'g ee_backend \<Rightarrow> 'g ndwi_image list \<Rightarrow> 'g \<Rightarrow> bool" where
  "covers be daily roi =
     geom_contains be (geom_dissolve be (geom_union be (map geometry daily))) roi 10"

definition mosaic_on_date ::
    "'g ee_backend \<Rightarrow> 'g ndwi_image list \<Rightarrow> 'g \<Rightarrow> string \<Rightarrow> mosaic_image option" where
  "mosaic_on_date be collection roi d =
     (let daily = filter (\<lambda>img. date_prop img = Some d) collection;
          millis = map_option (\<lambda>t. PNum (of_int t)) (ee_date_millis d);
          metadata =
            (no_props(''system:time_start'' := millis))
              (''date'' \<mapsto> PStr d, ''coverage'' \<mapsto> PStr ''full'',
               ''image_count'' \<mapsto> PNum (of_nat (length daily)))
      in if covers be daily roi
         then Some \<lparr>m_NDWI = clip_raster be (collection_median be NDWI daily) roi,
                    m_cloud_mask = clip_raster be (collection_median be cloud_mask daily) roi,
                    m_props = metadata\<rparr>
         else None)"

definition mosaic_s2 :: "'g ee_backend \<Rightarrow> 'g ndwi_image list \<Rightarrow> 'g \<Rightarrow> mosaic_image list" where
  "mosaic_s2 be collection roi =
     (let collection = map add_date collection;
          unique_dates = list_distinct (List.map_filter date_prop collection)
      in List.map_filter (mosaic_on_date be collection roi) unique_dates)"

section \<open>Layer names (\<^verbatim>\<open>rename.py\<close>)\<close>

definition set_layer_name :: "string \<Rightarrow> image \<Rightarrow> ee_error + image" where
  "set_layer_name prefix img =
     (case image_get img ''system:time_start'' of
        Some (PNum t) \<Rightarrow>
          (case image_get img ''source'' of
             Some (PStr source) \<Rightarrow>
               Inr (image_set img ''layer_name''
                      (Some (PStr (prefix @ ee_date_format \<lfloor>t\<rfloor> @ '' ('' @ source @ '')''))))
           | _ \<Rightarrow> Inl (ComputationError ''String: Parameter 'input' is required.''))
      | _ \<Rightarrow> Inl (ComputationError ''Date: Parameter 'value' is required.''))"

definition add_layer_name :: "image list \<Rightarrow> string \<Rightarrow> ee_error + image list" where
  "add_layer_name collection prefix = map_collection (set_layer_name prefix) collection"

section \<open>The pipeline (\<^verbatim>\<open>opticalflood.py\<close>)\<close>

text \<open>
  \<^verbatim>\<open>_ensure_ee_initialized\<close> evaluates \<^verbatim>\<open>ee.Number(1).getInfo()\<close> and, when that raises,
  calls \<^verbatim>\<open>ee.Initialize()\<close>. These are the only requests that \<^verbatim>\<open>opticflood_s2\<close> sends
  to the service: the session says whether the probe succeeds and whether a session can be
  opened, and the calls are recorded in order. Everything after the date ranges builds the
  collection that is returned; \<^verbatim>\<open>flood_collection\<close> is the value of that collection when
  it is evaluated. The two \<^verbatim>\<open>where\<close> steps of \<^verbatim>\<open>_classify_and_mask\<close> are named
  \<^verbatim>\<open>suppress_permanent_water\<close> and \<^verbatim>\<open>suppress_clouds\<close>, and its last masking step
  \<^verbatim>\<open>finish_mask\<close>.
\<close>

record session =
  session_ready :: bool
  can_initialize :: bool

datatype remote_call = GetInfoProbe | Initialize

definition ensure_ee_initialized :: "session \<Rightarrow> remote_call list \<times> (py_error + unit)" where
  "ensure_ee_initialized s =
     (if session_ready s then ([GetInfoProbe], Inr ())
      else if can_initialize s then ([GetInfoProbe, Initialize], Inr ())
      else ([GetInfoProbe, Initialize], Inl EEException))"

definition prepare :: "'g scene \<Rightarrow> 'g ndwi_image" where
  "prepare img =
     (let cloud_mask_img = mask_clouds img;
          ndwi = normalizedDifference (B3 img) (B8 img)
      in \<lparr>NDWI = ndwi, cloud_mask = px cloud_mask_img, geometry = footprint img,
          system_time_start = time_start img, date_prop = None\<rparr>)"

definition suppress_permanent_water :: "image \<Rightarrow> image \<Rightarrow> image" where
  "suppress_permanent_water permanent_water flood =
     image_where flood (image_eq permanent_water 1) 0"

definition suppress_clouds :: "image \<Rightarrow> image \<Rightarrow> image" where
  "suppress_clouds cloud_mask_img flood = image_where flood (image_eq cloud_mask_img 1) 0"

definition select_NDWI :: "mosaic_image \<Rightarrow> image" where
  "select_NDWI img = \<lparr>band = ''NDWI'', px = m_NDWI img, props = m_props img\<rparr>"

definition select_cloud_mask :: "mosaic_image \<Rightarrow> image" where
  "select_cloud_mask img = \<lparr>band = ''cloud_mask'', px = m_cloud_mask img, props = m_props img\<rparr>"

definition finish_mask :: "image \<Rightarrow> image" where
  "finish_mask flood = rename (updateMask flood (image_eq flood 1)) ''depth''"

definition classify_and_mask ::
    "'g ee_backend \<Rightarrow> 'g \<Rightarrow> image \<Rightarrow> mosaic_image \<Rightarrow> ee_error + image" where
  "classify_and_mask be aoi permanent_water img =
     (let ndwi = select_NDWI img;
          cloud_mask_img = select_cloud_mask img
      in then_do (classify_kmeans be ndwi aoi 2)
           (\<lambda>labelled.
              let classified = rename labelled ''depth'';
                  flood = image_eq classified 1;
                  flood = suppress_permanent_water permanent_water flood;
                  flood = suppress_clouds cloud_mask_img flood;
                  cleaned = finish_mask flood
              in Inr (image_set cleaned ''system:time_start'' (m_props img ''system:time_start''))))"

definition tag :: "(string \<times> string) list option \<Rightarrow> image \<Rightarrow> image" where
  "tag add_metadata img =
     (let meta = [(''source'', ''S2''), (''sensor'', ''Sentinel-2''),
                  (''algorithm'', ''kmeans_ndwi_v1'')]
                 @ (case add_metadata of None \<Rightarrow> [] | Some extra \<Rightarrow> extra)
      in foldl (\<lambda>i kv. image_set i (fst kv) (Some (PStr (snd kv)))) img meta)"

definition flood_collection ::
    "'g ee_backend \<Rightarrow> 'g \<Rightarrow> string \<times> string \<times> string \<times> string \<Rightarrow> rat \<Rightarrow> rat \<Rightarrow> bool
       \<Rightarrow> (string \<times> string) list option \<Rightarrow> ee_error + image list" where
  "flood_collection be aoi ranges cloud_threshold min_area use_reference_for_permwater
       add_metadata =
     (case ranges of (post_start_date, post_end_date, ref_start_date, ref_end_date) \<Rightarrow>
        then_do (load_s2_collection be aoi post_start_date post_end_date cloud_threshold)
          (\<lambda>s2.
        then_do (if use_reference_for_permwater then get_permanent_water be ref_start_date
                 else get_permanent_water be post_start_date)
          (\<lambda>permanent_water.
             let ndwi_collection = map prepare s2;
                 mosaicked = mosaic_s2 be ndwi_collection aoi
             in then_do (map_collection (classify_and_mask be aoi permanent_water) mosaicked)
                  (\<lambda>flood_ic.
                     let flood_ic = remove_small_area be flood_ic aoi min_area;
                         flood_ic = map (tag add_metadata) flood_ic
                     in add_layer_name flood_ic ''Flood extent on ''))))"

definition opticflood_s2 ::
    "session \<Rightarrow> 'g ee_backend \<Rightarrow> 'g \<Rightarrow> string \<Rightarrow> int \<Rightarrow> rat \<Rightarrow> rat \<Rightarrow> bool
       \<Rightarrow> (string \<times> string) list option
       \<Rightarrow> remote_call list \<times> (py_error + (ee_error + image list))" where
  "opticflood_s2 s be aoi flood_event_date lag cloud_threshold min_area
       use_reference_for_permwater add_metadata =
     (let started = ensure_ee_initialized s
      in (fst started,
          then_do (snd started) (\<lambda>ready.
          then_do (get_date_ranges flood_event_date lag 30 1) (\<lambda>ranges.
            Inr (flood_collection be aoi ranges cloud_threshold min_area
                   use_reference_for_permwater add_metadata)))))"

section \<open>Statements and test data\<close>

text \<open>The indicator raster of a cluster: 1 where the assignment is \<open>k\<close>, 0 elsewhere.\<close>

definition indicator_of :: "image \<Rightarrow> rat \<Rightarrow> raster" where
  "indicator_of clustered k = (\<lambda>p. map_option (\<lambda>c. if c = k then 1 else 0) (px clustered p))"


text \<open>
  A rounding function rounds to the nearest integer when its result is never further than
  one half from its argument; the value at a tie is left to the function.
\<close>

definition nearest_int :: "(rat \<Rightarrow> int) \<Rightarrow> bool" where
  "nearest_int r = (\<forall>x. \<bar>of_int (r x) - x\<bar> \<le> 1 / 2)"

text \<open>
  A small service for concrete runs: a region is the list of its pixels, a classifier is
  given, the median is the middle of the sorted values, and rounding is half up.
\<close>

definition median_of :: "rat list \<Rightarrow> rat" where
  "median_of vals =
     (let s = sort vals; n = length s
      in if n = 0 then 0
         else if odd n then s ! (n div 2)
         else (s ! (n div 2 - 1) + s ! (n div 2)) / 2)"

definition grid_backend :: "(rat \<Rightarrow> nat) \<Rightarrow> (pixel list) ee_backend" where
  "grid_backend classifier =
     \<lparr>geom_pixels = (\<lambda>g. g),
      geom_union = concat,
      geom_dissolve = remdups,
      geom_contains = (\<lambda>a b err. list_all (\<lambda>p. p \<in> set a) b),
      geom_intersects = (\<lambda>a b. list_ex (\<lambda>p. p \<in> set b) a),
      geom_intersection = (\<lambda>a b. filter (\<lambda>p. p \<in> set b) a),
      sample_pixels = (\<lambda>g n seed. take n g),
      train_kmeans = (\<lambda>n samples. classifier),
      reduce_median = median_of,
      number_round = (\<lambda>x. \<lfloor>x + 1 / 2\<rfloor>),
      s2_sr_harmonized = [],
      jrc_yearly_history = []\<rparr>"

definition ndwi_of :: "(pixel \<times> rat) list \<Rightarrow> image" where
  "ndwi_of values = \<lparr>band = ''NDWI'', px = map_of values, props = no_props\<rparr>"

definition split_at_half :: "rat \<Rightarrow> nat" where
  "split_at_half v = (if v < 1 / 2 then 0 else 1)"

definition middle_apart :: "rat \<Rightarrow> nat" where
  "middle_apart v = (if v = 1 / 2 then 1 else 0)"

definition single_cluster :: "rat \<Rightarrow> nat" where
  "single_cluster v = 0"

definition second_cluster :: "rat \<Rightarrow> nat" where
  "second_cluster v = 1"

text \<open>
  A flood mask with one row of \<open>n\<close> flood pixels, the pixels of that row as a region, a
  daily mosaic of two pixels with the properties that \<^verbatim>\<open>mosaic_on_date\<close> sets, and a
  permanent-water mask without water.
\<close>

definition flood_row :: "nat \<Rightarrow> image" where
  "flood_row n =
     \<lparr>band = ''depth'',
      px = (\<lambda>p. if snd p = 0 \<and> 0 \<le> fst p \<and> fst p < int n then Some 1 else None),
      props = no_props\<rparr>"

definition row_pixels :: "nat \<Rightarrow> pixel list" where
  "row_pixels n = map (\<lambda>i. (int i, 0)) [0..<n]"

definition mosaic_2023_07_16 :: mosaic_image where
  "mosaic_2023_07_16 =
     \<lparr>m_NDWI = map_of [((0, 0), 1 / 10), ((1, 0), 4 / 5)],
      m_cloud_mask = map_of [((0, 0), 0), ((1, 0), 0)],
      m_props = (no_props(''system:time_start'' \<mapsto> PNum 1689465600000))
                  (''date'' \<mapsto> PStr ''2023-07-16'', ''coverage'' \<mapsto> PStr ''full'',
                   ''image_count'' \<mapsto> PNum 1)\<rparr>"

definition no_water :: image where
  "no_water = \<lparr>band = ''permanent_water'', px = (\<lambda>p. Some 0), props = no_props\<rparr>"


definition ready_session :: session where
  "ready_session = \<lparr>session_ready = True, can_initialize = True\<rparr>"

text \<open>A daily mosaic whose pixels are all masked.\<close>

definition mosaic_masked :: mosaic_image where
  "mosaic_masked =
     \<lparr>m_NDWI = (\<lambda>p. None),
      m_cloud_mask = (\<lambda>p. None),
      m_props = (no_props(''system:time_start'' \<mapsto> PNum 1689552000000))
                  (''date'' \<mapsto> PStr ''2023-07-17'', ''coverage'' \<mapsto> PStr ''full'',
                   ''image_count'' \<mapsto> PNum 1)\<rparr>"

section \<open>Verification: date ranges\<close>

lemma dby_decomp:
  assumes "0 \<le> a" "0 \<le> b" "b \<le> 3" "0 \<le> c" "c \<le> 24" "0 \<le> e" "e \<le> 3"
  shows "days_before_year (400 * a + 100 * b + 4 * c + e + 1)
           = 146097 * a + 36524 * b + 1461 * c + 365 * e"
proof -
  let ?y = "400 * a + 100 * b + 4 * c + e"
  have 1: "?y div 4 = 100 * a + 25 * b + c"
    by (rule int_div_pos_eq [where r = e]) (use assms in auto)
  have 2: "?y div 100 = 4 * a + b"
    by (rule int_div_pos_eq [where r = "4 * c + e"]) (use assms in auto)
  have 3: "?y div 400 = a"
    by (rule int_div_pos_eq [where r = "100 * b + 4 * c + e"]) (use assms in auto)
  show ?thesis unfolding days_before_year_def Let_def using 1 2 3 by simp
qed

lemma leap_decomp:
  assumes "0 \<le> a" "0 \<le> b" "b \<le> 3" "0 \<le> c" "c \<le> 24" "0 \<le> e" "e \<le> 3"
  shows "is_leap (400 * a + 100 * b + 4 * c + e + 1) = (e = 3 \<and> (c \<noteq> 24 \<or> b = 3))"
proof -
  let ?y = "400 * a + 100 * b + 4 * c + e + 1"
  have m4: "?y mod 4 = (e + 1) mod 4"
  proof -
    have "?y = (e + 1) + (100 * a + 25 * b + c) * 4" by simp
    then show ?thesis by (metis mod_mult_self1)
  qed
  have m100: "?y mod 100 = (4 * c + e + 1) mod 100"
  proof -
    have "?y = (4 * c + e + 1) + (4 * a + b) * 100" by simp
    then show ?thesis by (metis mod_mult_self1)
  qed
  have m400: "?y mod 400 = (100 * b + 4 * c + e + 1) mod 400"
  proof -
    have "?y = (100 * b + 4 * c + e + 1) + a * 400" by simp
    then show ?thesis by (metis mod_mult_self1)
  qed
  have e4: "((e + 1) mod 4 = 0) = (e = 3)" using assms by presburger
  have c100: "((4 * c + e + 1) mod 100 = 0) = (c = 24 \<and> e = 3)"
  proof (cases "4 * c + e + 1 < 100")
    case True
    then have "(4 * c + e + 1) mod 100 = 4 * c + e + 1" using assms by simp
    then show ?thesis using assms True by auto
  next
    case False
    then have eq: "4 * c + e + 1 = 100" using assms by linarith
    then have "c = 24 \<and> e = 3" using assms by presburger
    then show ?thesis by simp
  qed
  have b400: "((100 * b + 4 * c + e + 1) mod 400 = 0) = (b = 3 \<and> c = 24 \<and> e = 3)"
  proof (cases "100 * b + 4 * c + e + 1 < 400")
    case True
    then have "(100 * b + 4 * c + e + 1) mod 400 = 100 * b + 4 * c + e + 1" using assms by simp
    then show ?thesis using assms True by auto
  next
    case False
    then have eq: "100 * b + 4 * c + e + 1 = 400" using assms by linarith
    then have "b = 3 \<and> c = 24 \<and> e = 3" using assms by presburger
    then show ?thesis by simp
  qed
  show ?thesis unfolding is_leap_def m4 m100 m400 e4 c100 b400 by auto
qed

lemma yday2md_ok:
  assumes "0 \<le> n" "n < (if lp then 366 else 365)"
  shows "1 \<le> fst (yday2md lp n) \<and> fst (yday2md lp n) \<le> 12 \<and> 1 \<le> snd (yday2md lp n)
     \<and> snd (yday2md lp n) \<le> DAYS_IN_MONTH (fst (yday2md lp n))
            + (if fst (yday2md lp n) = 2 \<and> lp then 1 else 0)
     \<and> DAYS_BEFORE_MONTH (fst (yday2md lp n)) + (if fst (yday2md lp n) > 2 \<and> lp then 1 else 0)
          + snd (yday2md lp n) = n + 1"
proof -
  define k where "k = (n + 50) div 32"
  have lo: "32 * k \<le> n + 50" and hi: "n + 50 < 32 * k + 32"
    unfolding k_def by presburger+
  have n366: "n < 366" using assms(2) by (simp split: if_splits)
  have "1 \<le> k" "k \<le> 12" using lo hi assms(1) n366 by linarith+
  then consider "k = 1" | "k = 2" | "k = 3" | "k = 4" | "k = 5" | "k = 6" | "k = 7"
    | "k = 8" | "k = 9" | "k = 10" | "k = 11" | "k = 12"
    by atomize_elim arith
  then show ?thesis
    using lo hi assms
    unfolding yday2md_def Let_def k_def [symmetric] DAYS_BEFORE_MONTH_def DAYS_IN_MONTH_def
    by cases (simp_all split: if_splits)
qed

lemma ord2ymd_ok:
  assumes "1 \<le> n"
  shows "valid_date (ord2ymd n) \<and> toordinal (ord2ymd n) = n"
proof -
  define a where "a = (n - 1) div 146097"
  define r1 where "r1 = (n - 1) mod 146097"
  define b where "b = r1 div 36524"
  define r2 where "r2 = r1 mod 36524"
  define c where "c = r2 div 1461"
  define r3 where "r3 = r2 mod 1461"
  define e where "e = r3 div 365"
  define r4 where "r4 = r3 mod 365"
  define lp where "lp = (e = 3 \<and> (c \<noteq> 24 \<or> b = 3))"
  have ord: "ord2ymd n =
      (if e = 4 \<or> b = 4 then Date (a * 400 + 1 + (b * 100 + c * 4 + e) - 1) 12 31
       else Date (a * 400 + 1 + (b * 100 + c * 4 + e)) (fst (yday2md lp r4)) (snd (yday2md lp r4)))"
    unfolding ord2ymd_def Let_def a_def r1_def b_def r2_def c_def r3_def e_def r4_def lp_def
    by simp
  have n_eq: "n - 1 = 146097 * a + r1" unfolding a_def r1_def by simp
  have r1b: "0 \<le> r1" "r1 < 146097" unfolding r1_def by simp_all
  have a0: "0 \<le> a" unfolding a_def using assms by simp
  have r1_eq: "r1 = 36524 * b + r2" unfolding b_def r2_def by simp
  have r2b: "0 \<le> r2" "r2 < 36524" unfolding r2_def by simp_all
  have b0: "0 \<le> b" unfolding b_def using r1b by simp
  have b4: "b \<le> 4" using r1_eq r1b r2b by linarith
  have r2_eq: "r2 = 1461 * c + r3" unfolding c_def r3_def by simp
  have r3b: "0 \<le> r3" "r3 < 1461" unfolding r3_def by simp_all
  have c0: "0 \<le> c" unfolding c_def using r2b by simp
  have c24: "c \<le> 24" using r2_eq r2b r3b by linarith
  have r3_eq: "r3 = 365 * e + r4" unfolding e_def r4_def by simp
  have r4b: "0 \<le> r4" "r4 < 365" unfolding r4_def by simp_all
  have e0: "0 \<le> e" unfolding e_def using r3b by simp
  have e4: "e \<le> 4" using r3_eq r3b r4b by linarith
  show ?thesis
  proof (cases "b = 4")
    case True
    have z: "r2 = 0" using True r1_eq r1b r2b by linarith
    then have cz: "c = 0" "r3 = 0" using r2_eq r3b c0 by linarith+
    then have ez: "e = 0" using r3_eq r4b e0 by linarith
    have res: "ord2ymd n = Date (400 * a + 100 * 3 + 4 * 24 + 3 + 1) 12 31"
      using ord True cz ez by simp
    have dby: "days_before_year (400 * a + 100 * 3 + 4 * 24 + 3 + 1)
        = 146097 * a + 36524 * 3 + 1461 * 24 + 365 * 3"
      by (rule dby_decomp) (use a0 in auto)
    have lpy: "is_leap (400 * a + 100 * 3 + 4 * 24 + 3 + 1)"
      using leap_decomp [of a 3 24 3] a0 by simp
    have nn: "n = 146097 * a + 146097" using n_eq r1_eq True z by linarith
    show ?thesis
      unfolding res valid_date_def toordinal_def ymd2ord_def days_before_month_def
        days_in_month_def DAYS_IN_MONTH_def DAYS_BEFORE_MONTH_def
      using dby lpy nn a0 by simp
  next
    case bne: False
    then have b3: "b \<le> 3" using b4 by linarith
    show ?thesis
    proof (cases "e = 4")
      case True
      have r4z: "r4 = 0" using True r3_eq r3b r4b by linarith
      have c23: "c \<le> 23" using r2_eq r2b r3_eq True r4z by linarith
      have res: "ord2ymd n = Date (400 * a + 100 * b + 4 * c + 3 + 1) 12 31"
        using ord True by simp
      have dby: "days_before_year (400 * a + 100 * b + 4 * c + 3 + 1)
          = 146097 * a + 36524 * b + 1461 * c + 365 * 3"
        by (rule dby_decomp) (use a0 b0 b3 c0 c23 in auto)
      have lpy: "is_leap (400 * a + 100 * b + 4 * c + 3 + 1)"
        using leap_decomp [of a b c 3] a0 b0 b3 c0 c23 by simp
      have nn: "n = 146097 * a + 36524 * b + 1461 * c + 1461"
        using n_eq r1_eq r2_eq r3_eq True r4z by linarith
      show ?thesis
        unfolding res valid_date_def toordinal_def ymd2ord_def days_before_month_def
          days_in_month_def DAYS_IN_MONTH_def DAYS_BEFORE_MONTH_def
        using dby lpy nn a0 b0 c0 by simp
    next
      case False
      then have e3: "e \<le> 3" using e4 by linarith
      define y where "y = 400 * a + 100 * b + 4 * c + e + 1"
      define m where "m = fst (yday2md lp r4)"
      define d where "d = snd (yday2md lp r4)"
      have res: "ord2ymd n = Date y m d"
        using ord False bne unfolding y_def m_def d_def by (simp add: algebra_simps)
      have dby: "days_before_year y = 146097 * a + 36524 * b + 1461 * c + 365 * e"
        unfolding y_def by (rule dby_decomp) (use a0 b0 b3 c0 c24 e0 e3 in auto)
      have lpy: "is_leap y = lp"
        unfolding y_def lp_def by (rule leap_decomp) (use a0 b0 b3 c0 c24 e0 e3 in auto)
      have "r4 < (if lp then 366 else 365)" using r4b by simp
      from yday2md_ok [OF r4b(1) this]
      have md: "1 \<le> m" "m \<le> 12" "1 \<le> d"
        "d \<le> DAYS_IN_MONTH m + (if m = 2 \<and> lp then 1 else 0)"
        "DAYS_BEFORE_MONTH m + (if m > 2 \<and> lp then 1 else 0) + d = r4 + 1"
        unfolding m_def d_def by simp_all
      have y1: "1 \<le> y" unfolding y_def using a0 b0 c0 e0 by linarith
      have dim: "d \<le> days_in_month y m"
        using md(4) unfolding days_in_month_def lpy DAYS_IN_MONTH_def by (simp split: if_splits)
      have tot: "ymd2ord y m d = n"
        unfolding ymd2ord_def days_before_month_def lpy dby
        using md(5) n_eq r1_eq r2_eq r3_eq by linarith
      show ?thesis
        unfolding res valid_date_def toordinal_def using y1 md(1,2,3) dim tot by simp
    qed
  qed
qed

lemma div_step:
  fixes y k :: int
  assumes "0 < k"
  shows "y div k = (y - 1) div k + (if y mod k = 0 then 1 else 0)"
proof -
  define q where "q = (y - 1) div k"
  define r where "r = (y - 1) mod k"
  have y: "y = k * q + (r + 1)" unfolding q_def r_def by simp
  have rb: "0 \<le> r" "r < k" unfolding r_def using assms by simp_all
  show ?thesis
  proof (cases "r + 1 = k")
    case True
    then have yk: "y = k * (q + 1) + 0" using y by (simp add: algebra_simps)
    have "y div k = q + 1" by (rule int_div_pos_eq [OF yk]) (use assms in auto)
    moreover have "y mod k = 0" by (rule int_mod_pos_eq [OF yk]) (use assms in auto)
    ultimately show ?thesis unfolding q_def by simp
  next
    case False
    then have lt: "r + 1 < k" using rb by linarith
    have "y div k = q" by (rule int_div_pos_eq [OF y]) (use rb lt in auto)
    moreover have "y mod k = r + 1" by (rule int_mod_pos_eq [OF y]) (use rb lt in auto)
    ultimately show ?thesis unfolding q_def using rb by simp
  qed
qed

lemma dby_step:
  "days_before_year (y + 1) = days_before_year y + (if is_leap y then 366 else 365)"
proof -
  have 4: "y div 4 = (y - 1) div 4 + (if y mod 4 = 0 then 1 else 0)"
    by (rule div_step) simp
  have 100: "y div 100 = (y - 1) div 100 + (if y mod 100 = 0 then 1 else 0)"
    by (rule div_step) simp
  have 400: "y div 400 = (y - 1) div 400 + (if y mod 400 = 0 then 1 else 0)"
    by (rule div_step) simp
  have d1: "y mod 100 = 0" if "y mod 400 = 0"
  proof -
    have "(400::int) dvd y" using that by (simp add: dvd_eq_mod_eq_0)
    moreover have "(100::int) dvd 400" by simp
    ultimately have "(100::int) dvd y" by (rule dvd_trans [rotated])
    then show ?thesis by (simp add: dvd_eq_mod_eq_0)
  qed
  have d2: "y mod 4 = 0" if "y mod 100 = 0"
  proof -
    have "(100::int) dvd y" using that by (simp add: dvd_eq_mod_eq_0)
    moreover have "(4::int) dvd 100" by simp
    ultimately have "(4::int) dvd y" by (rule dvd_trans [rotated])
    then show ?thesis by (simp add: dvd_eq_mod_eq_0)
  qed
  have L: "days_before_year (y + 1) = y * 365 + y div 4 - y div 100 + y div 400"
    by (simp add: days_before_year_def)
  have R: "days_before_year y
      = (y - 1) * 365 + (y - 1) div 4 - (y - 1) div 100 + (y - 1) div 400"
    by (simp add: days_before_year_def Let_def)
  consider (a) "y mod 400 = 0" | (b) "y mod 400 \<noteq> 0" "y mod 100 = 0"
    | (c) "y mod 100 \<noteq> 0" "y mod 4 = 0" | (d) "y mod 4 \<noteq> 0"
    by blast
  then show ?thesis
  proof cases
    case a
    then have m: "y mod 100 = 0" "y mod 4 = 0" using d1 d2 by auto
    have "is_leap y" unfolding is_leap_def using a m by simp
    then show ?thesis using L R 4 100 400 a m by simp
  next
    case b
    then have m: "y mod 4 = 0" using d2 by auto
    have "\<not> is_leap y" unfolding is_leap_def using b by simp
    then show ?thesis using L R 4 100 400 b m by simp
  next
    case c
    then have m: "y mod 400 \<noteq> 0" using d1 by auto
    have "is_leap y" unfolding is_leap_def using c by simp
    then show ?thesis using L R 4 100 400 c m by simp
  next
    case d
    then have m: "y mod 100 \<noteq> 0" "y mod 400 \<noteq> 0" using d1 d2 by auto
    have "\<not> is_leap y" unfolding is_leap_def using d by simp
    then show ?thesis using L R 4 100 400 d m by simp
  qed
qed

lemma dby_mono: "y1 \<le> y2 \<Longrightarrow> days_before_year y1 \<le> days_before_year y2"
proof (induction y2 rule: int_ge_induct)
  case base
  show ?case by simp
next
  case (step i)
  have "days_before_year i \<le> days_before_year (i + 1)" using dby_step [of i] by simp
  with step show ?case by linarith
qed

lemma dbm_step:
  assumes "1 \<le> m" "m \<le> 11"
  shows "days_before_month y (m + 1) = days_before_month y m + days_in_month y m"
proof -
  from assms consider "m = 1" | "m = 2" | "m = 3" | "m = 4" | "m = 5" | "m = 6" | "m = 7"
    | "m = 8" | "m = 9" | "m = 10" | "m = 11"
    by atomize_elim arith
  then show ?thesis
    by cases (simp_all add: days_before_month_def days_in_month_def DAYS_BEFORE_MONTH_def
        DAYS_IN_MONTH_def)
qed

lemma dim_bounds:
  assumes "1 \<le> m" "m \<le> 12"
  shows "28 \<le> days_in_month y m \<and> days_in_month y m \<le> 31"
  unfolding days_in_month_def DAYS_IN_MONTH_def by simp

lemma dbm_mono:
  assumes "1 \<le> m1" "m1 \<le> m2" "m2 \<le> 12"
  shows "days_before_month y m1 \<le> days_before_month y m2"
  using assms(2,1,3)
proof (induction m2 rule: int_ge_induct)
  case base
  show ?case by simp
next
  case (step i)
  have "days_before_month y (i + 1) = days_before_month y i + days_in_month y i"
    by (rule dbm_step) (use step in auto)
  moreover have "28 \<le> days_in_month y i" using dim_bounds [of i y] step by simp
  ultimately show ?case using step by simp
qed

lemma dbm_first: "days_before_month y 1 = 0"
  by (simp add: days_before_month_def DAYS_BEFORE_MONTH_def)

lemma dbm_last: "days_before_month y 12 + 31 = (if is_leap y then 366 else 365)"
  by (simp add: days_before_month_def DAYS_BEFORE_MONTH_def)

lemma dim_last: "days_in_month y 12 = 31"
  by (simp add: days_in_month_def DAYS_IN_MONTH_def)

lemma yday_bounds:
  assumes "valid_date d"
  shows "days_before_month (year d) (month d) < days_before_month (year d) (month d) + day d"
    and "days_before_month (year d) (month d) + day d
           \<le> days_before_month (year d) (month d) + days_in_month (year d) (month d)"
  using assms unfolding valid_date_def by simp_all

lemma year_bounds:
  assumes "valid_date d"
  shows "days_before_year (year d) < toordinal d"
    and "toordinal d \<le> days_before_year (year d + 1)"
proof -
  let ?y = "year d" and ?m = "month d"
  have v: "1 \<le> ?m" "?m \<le> 12" "1 \<le> day d" "day d \<le> days_in_month ?y ?m"
    using assms unfolding valid_date_def by simp_all
  have "days_before_month ?y 1 \<le> days_before_month ?y ?m"
    by (rule dbm_mono) (use v in auto)
  then have "0 \<le> days_before_month ?y ?m" unfolding dbm_first .
  then show "days_before_year ?y < toordinal d"
    unfolding toordinal_def ymd2ord_def using v(3) by linarith
  have "days_before_month ?y ?m + days_in_month ?y ?m \<le> days_before_month ?y 12 + 31"
  proof (cases "?m = 12")
    case True
    then show ?thesis by (simp add: dim_last)
  next
    case False
    then have m11: "?m \<le> 11" using v(2) by linarith
    have "days_before_month ?y (?m + 1) \<le> days_before_month ?y 12"
      by (rule dbm_mono) (use v m11 in auto)
    then show ?thesis using dbm_step [OF v(1) m11, of ?y] by linarith
  qed
  then show "toordinal d \<le> days_before_year (year d + 1)"
    unfolding toordinal_def ymd2ord_def using v(4) dbm_last [of ?y] dby_step [of ?y]
    by (simp split: if_splits)
qed

lemma toordinal_inj:
  assumes "valid_date d1" "valid_date d2" "toordinal d1 = toordinal d2"
  shows "d1 = d2"
proof -
  have yy: "year d1 = year d2"
  proof (rule ccontr)
    assume ne: "year d1 \<noteq> year d2"
    show False
    proof (cases "year d1 < year d2")
      case True
      then have "days_before_year (year d1 + 1) \<le> days_before_year (year d2)"
        by (intro dby_mono) simp
      with year_bounds(2) [OF assms(1)] year_bounds(1) [OF assms(2)] assms(3)
      show False by linarith
    next
      case False
      with ne have "days_before_year (year d2 + 1) \<le> days_before_year (year d1)"
        by (intro dby_mono) simp
      with year_bounds(2) [OF assms(2)] year_bounds(1) [OF assms(1)] assms(3)
      show False by linarith
    qed
  qed
  let ?y = "year d1"
  have v1: "1 \<le> month d1" "month d1 \<le> 12" "1 \<le> day d1"
      "day d1 \<le> days_in_month ?y (month d1)"
    using assms(1) unfolding valid_date_def by simp_all
  have v2: "1 \<le> month d2" "month d2 \<le> 12" "1 \<le> day d2"
      "day d2 \<le> days_in_month ?y (month d2)"
    using assms(2) yy unfolding valid_date_def by simp_all
  have yd: "days_before_month ?y (month d1) + day d1 = days_before_month ?y (month d2) + day d2"
    using assms(3) yy unfolding toordinal_def ymd2ord_def by simp
  have mm: "month d1 = month d2"
  proof (rule ccontr)
    assume ne: "month d1 \<noteq> month d2"
    show False
    proof (cases "month d1 < month d2")
      case True
      then have m11: "month d1 \<le> 11" using v2(2) by linarith
      have "days_before_month ?y (month d1 + 1) \<le> days_before_month ?y (month d2)"
        by (rule dbm_mono) (use v1 v2 True in auto)
      with dbm_step [OF v1(1) m11, of ?y] v1(4) v2(3) yd show False by linarith
    next
      case False
      with ne have lt: "month d2 < month d1" by linarith
      then have m11: "month d2 \<le> 11" using v1(2) by linarith
      have "days_before_month ?y (month d2 + 1) \<le> days_before_month ?y (month d1)"
        by (rule dbm_mono) (use v1 v2 lt in auto)
      with dbm_step [OF v2(1) m11, of ?y] v2(4) v1(3) yd show False by linarith
    qed
  qed
  have "day d1 = day d2" using yd mm by simp
  with yy mm show ?thesis by (simp add: date.expand)
qed

lemma ord2ymd_toordinal:
  assumes "valid_date d"
  shows "ord2ymd (toordinal d) = d"
proof -
  have "days_before_year 1 \<le> days_before_year (year d)"
    by (rule dby_mono) (use assms in \<open>simp add: valid_date_def\<close>)
  then have "0 \<le> days_before_year (year d)" by (simp add: days_before_year_def)
  with year_bounds(1) [OF assms] have "1 \<le> toordinal d" by linarith
  from ord2ymd_ok [OF this] show ?thesis
    by (intro toordinal_inj) (use assms in auto)
qed

lemma next_day_ok:
  assumes "valid_date d"
  shows "valid_date (next_day d) \<and> toordinal (next_day d) = toordinal d + 1"
proof -
  let ?y = "year d" and ?m = "month d"
  have v: "1 \<le> ?y" "1 \<le> ?m" "?m \<le> 12" "1 \<le> day d" "day d \<le> days_in_month ?y ?m"
    using assms unfolding valid_date_def by simp_all
  show ?thesis
  proof (cases "day d < days_in_month ?y ?m")
    case True
    then show ?thesis
      using v by (simp add: next_day_def valid_date_def toordinal_def ymd2ord_def)
  next
    case False
    then have last: "day d = days_in_month ?y ?m" using v(5) by linarith
    show ?thesis
    proof (cases "?m < 12")
      case True
      then have m11: "?m \<le> 11" by linarith
      have nd: "next_day d = Date ?y (?m + 1) 1" using False True by (simp add: next_day_def)
      have "28 \<le> days_in_month ?y (?m + 1)" using dim_bounds [of "?m + 1" ?y] v m11 by simp
      then show ?thesis
        unfolding nd valid_date_def toordinal_def ymd2ord_def
        using v m11 last dbm_step [OF v(2) m11, of ?y] by simp
    next
      case m12: False
      then have m: "?m = 12" using v(3) by linarith
      have nd: "next_day d = Date (?y + 1) 1 1" using False m12 by (simp add: next_day_def)
      have "28 \<le> days_in_month (?y + 1) 1" using dim_bounds [of 1 "?y + 1"] by simp
      then show ?thesis
        unfolding nd valid_date_def toordinal_def ymd2ord_def
        using v last m dbm_last [of ?y] dim_last [of ?y] dbm_first [of "?y + 1"]
          dby_step [of ?y]
        by (simp split: if_splits)
    qed
  qed
qed

lemma toordinal_first: "toordinal (Date 1 1 1) = 1"
  by (simp add: toordinal_def ymd2ord_def days_before_year_def days_before_month_def
      DAYS_BEFORE_MONTH_def)

lemma prev_day_ok:
  assumes "valid_date d" "1 < toordinal d"
  shows "valid_date (prev_day d) \<and> toordinal (prev_day d) = toordinal d - 1"
proof -
  let ?y = "year d" and ?m = "month d"
  have v: "1 \<le> ?y" "1 \<le> ?m" "?m \<le> 12" "1 \<le> day d" "day d \<le> days_in_month ?y ?m"
    using assms unfolding valid_date_def by simp_all
  show ?thesis
  proof (cases "1 < day d")
    case True
    then show ?thesis
      using v by (simp add: prev_day_def valid_date_def toordinal_def ymd2ord_def)
  next
    case False
    then have d1: "day d = 1" using v(4) by linarith
    show ?thesis
    proof (cases "1 < ?m")
      case True
      have pd: "prev_day d = Date ?y (?m - 1) (days_in_month ?y (?m - 1))"
        using False True by (simp add: prev_day_def)
      have b: "28 \<le> days_in_month ?y (?m - 1)" using dim_bounds [of "?m - 1" ?y] v True by simp
      have "days_before_month ?y (?m - 1 + 1)
          = days_before_month ?y (?m - 1) + days_in_month ?y (?m - 1)"
        by (rule dbm_step) (use v True in auto)
      then show ?thesis
        unfolding pd valid_date_def toordinal_def ymd2ord_def
        using v True d1 b by simp
    next
      case m1: False
      then have m: "?m = 1" using v(2) by linarith
      have "d = Date ?y ?m (day d)" by simp
      then have "d = Date ?y 1 1" using m d1 by simp
      then have "?y \<noteq> 1" using assms(2) toordinal_first by (metis less_irrefl)
      then have y2: "2 \<le> ?y" using v(1) by linarith
      have pd: "prev_day d = Date (?y - 1) 12 31" using False m1 by (simp add: prev_day_def)
      have st: "days_before_year (?y - 1 + 1)
          = days_before_year (?y - 1) + (if is_leap (?y - 1) then 366 else 365)"
        by (rule dby_step)
      show ?thesis
        unfolding pd valid_date_def toordinal_def ymd2ord_def
        using v y2 d1 m st dbm_last [of "?y - 1"] dim_last [of "?y - 1"] dbm_first [of ?y]
        by (simp split: if_splits)
    qed
  qed
qed

lemma plus_days_ok:
  assumes "valid_date d"
  shows "valid_date ((next_day ^^ n) d) \<and> toordinal ((next_day ^^ n) d) = toordinal d + int n"
proof (induction n)
  case 0
  show ?case using assms by simp
next
  case (Suc n)
  then show ?case using next_day_ok [of "(next_day ^^ n) d"] by simp
qed

lemma minus_days_ok:
  assumes "valid_date d" "int n < toordinal d"
  shows "valid_date ((prev_day ^^ n) d) \<and> toordinal ((prev_day ^^ n) d) = toordinal d - int n"
  using assms(2)
proof (induction n)
  case 0
  show ?case using assms(1) by simp
next
  case (Suc n)
  then have ih: "valid_date ((prev_day ^^ n) d)"
      "toordinal ((prev_day ^^ n) d) = toordinal d - int n"
    by simp_all
  have "1 < toordinal ((prev_day ^^ n) d)" using ih(2) Suc.prems by simp
  from prev_day_ok [OF ih(1) this] show ?case using ih(2) by simp
qed

lemma ord2ymd_plus:
  assumes "valid_date d"
  shows "ord2ymd (toordinal d + int n) = (next_day ^^ n) d"
  using plus_days_ok [OF assms, of n] ord2ymd_toordinal [of "(next_day ^^ n) d"] by simp

lemma ord2ymd_minus:
  assumes "valid_date d" "int n < toordinal d"
  shows "ord2ymd (toordinal d - int n) = (prev_day ^^ n) d"
  using minus_days_ok [OF assms] ord2ymd_toordinal [of "(prev_day ^^ n) d"] by simp

lemma parse_valid:
  assumes "parse s = Inr E"
  shows "valid_date E \<and> year E \<le> 9999"
  using assms unfolding parse_def valid_date_def
  by (auto split: option.splits if_splits)

lemma toordinal_max:
  assumes "valid_date d" "year d \<le> 9999"
  shows "toordinal d \<le> MAXORDINAL"
proof -
  have "days_before_year (year d + 1) \<le> days_before_year 10000"
    by (rule dby_mono) (use assms in simp)
  moreover have "days_before_year 10000 = 3652059" by (simp add: days_before_year_def)
  ultimately show ?thesis using year_bounds(2) [OF assms(1)] unfolding MAXORDINAL_def by linarith
qed

lemma toordinal_pos:
  assumes "valid_date d"
  shows "1 \<le> toordinal d"
proof -
  have "days_before_year 1 \<le> days_before_year (year d)"
    by (rule dby_mono) (use assms in \<open>simp add: valid_date_def\<close>)
  then have "0 \<le> days_before_year (year d)" by (simp add: days_before_year_def)
  with year_bounds(1) [OF assms] show ?thesis by linarith
qed

lemma date_add_nat:
  assumes "valid_date d"
  shows "date_add d (int n) =
     (if toordinal d + int n \<le> MAXORDINAL then Inr ((next_day ^^ n) d) else Inl OverflowError)"
  using toordinal_pos [OF assms] ord2ymd_plus [OF assms, of n]
  by (simp add: date_add_def Let_def)

lemma date_sub_nat:
  assumes "valid_date d" "year d \<le> 9999"
  shows "date_sub d (int n) =
     (if int n < toordinal d then Inr ((prev_day ^^ n) d) else Inl OverflowError)"
proof (cases "int n < toordinal d")
  case True
  then show ?thesis
    using toordinal_max [OF assms] ord2ymd_minus [OF assms(1) True]
    by (simp add: date_sub_def date_add_def Let_def)
next
  case False
  then show ?thesis by (simp add: date_sub_def date_add_def Let_def)
qed

lemma get_date_ranges_value:
  assumes "parse s = Inr E" "0 \<le> L"
  shows "get_date_ranges s L 30 1 =
     (if 30 < toordinal E \<and> toordinal E + max 1 L \<le> MAXORDINAL
      then Inr (format_date (next_day E), format_date ((next_day ^^ nat L) E),
                format_date ((prev_day ^^ 30) E), format_date (prev_day E))
      else Inl OverflowError)"
proof -
  have v: "valid_date E" "year E \<le> 9999" using parse_valid [OF assms(1)] by simp_all
  have pos: "1 \<le> toordinal E" by (rule toordinal_pos [OF v(1)])
  have mx: "toordinal E \<le> MAXORDINAL" by (rule toordinal_max [OF v])
  have a1: "date_add E 1 =
      (if toordinal E + 1 \<le> MAXORDINAL then Inr (next_day E) else Inl OverflowError)"
    using date_add_nat [OF v(1), of 1] by simp
  have aL: "date_add E L =
      (if toordinal E + L \<le> MAXORDINAL then Inr ((next_day ^^ nat L) E) else Inl OverflowError)"
    using date_add_nat [OF v(1), of "nat L"] assms(2) by simp
  have s30: "date_sub E 30 =
      (if 30 < toordinal E then Inr ((prev_day ^^ 30) E) else Inl OverflowError)"
    using date_sub_nat [OF v, of 30] by simp
  have s1: "date_sub E 1 =
      (if 1 < toordinal E then Inr (prev_day E) else Inl OverflowError)"
    using date_sub_nat [OF v, of 1] by simp
  have tL: "timedelta L = (if L \<le> 999999999 then Inr L else Inl OverflowError)"
    using assms(2) by (simp add: timedelta_def)
  have big: "\<not> L \<le> 999999999 \<Longrightarrow> \<not> toordinal E + L \<le> MAXORDINAL"
    using pos unfolding MAXORDINAL_def by linarith
  have t1: "timedelta 1 = Inr 1" "timedelta 30 = Inr 30" by (simp_all add: timedelta_def)
  show ?thesis
  proof (cases "30 < toordinal E \<and> toordinal E + max 1 L \<le> MAXORDINAL")
    case True
    then have r: "30 < toordinal E" "1 < toordinal E" "toordinal E + 1 \<le> MAXORDINAL"
        "toordinal E + L \<le> MAXORDINAL" "L \<le> 999999999"
      using big by (auto simp: max_def split: if_splits)
    show ?thesis
      using True r by (simp add: get_date_ranges_def then_do_def assms(1) t1 tL a1 aL s30 s1)
  next
    case False
    then consider (a) "\<not> toordinal E + 1 \<le> MAXORDINAL"
      | (b) "toordinal E + 1 \<le> MAXORDINAL" "\<not> L \<le> 999999999"
      | (c) "toordinal E + 1 \<le> MAXORDINAL" "L \<le> 999999999"
            "\<not> toordinal E + L \<le> MAXORDINAL"
      | (d) "toordinal E + 1 \<le> MAXORDINAL" "L \<le> 999999999"
            "toordinal E + L \<le> MAXORDINAL" "\<not> 30 < toordinal E"
      by (auto simp: max_def split: if_splits)
    then show ?thesis
    proof cases
      case a
      then show ?thesis
        using False by (simp add: get_date_ranges_def then_do_def assms(1) t1 a1)
    next
      case b
      then show ?thesis
        using False by (simp add: get_date_ranges_def then_do_def assms(1) t1 tL a1)
    next
      case c
      then show ?thesis
        using False by (simp add: get_date_ranges_def then_do_def assms(1) t1 tL a1 aL)
    next
      case d
      then show ?thesis
        using False by (simp add: get_date_ranges_def then_do_def assms(1) t1 tL a1 aL s30)
    qed
  qed
qed

lemma digit_char_code:
  assumes "0 \<le> k" "k \<le> 9"
  shows "(of_char (digit_char k) :: int) = 48 + k"
proof -
  from assms consider "k = 0" | "k = 1" | "k = 2" | "k = 3" | "k = 4" | "k = 5" | "k = 6"
    | "k = 7" | "k = 8" | "k = 9"
    by atomize_elim arith
  then show ?thesis by cases (simp_all add: digit_char_def)
qed

lemma digits_of:
  fixes n :: int
  assumes "0 \<le> n"
  shows "0 \<le> n mod 10" "n mod 10 \<le> 9" "0 \<le> n div 10" "n = 10 * (n div 10) + n mod 10"
  using assms by simp_all

lemma decimal2:
  assumes "0 \<le> a" "a \<le> 9" "0 \<le> b" "b \<le> 9"
  shows "decimal [digit_char a, digit_char b] = 10 * a + b"
    and "list_all is_digit [digit_char a, digit_char b]"
  using assms by (simp_all add: decimal_def is_digit_def digit_char_code)

lemma decimal4:
  assumes "0 \<le> a" "a \<le> 9" "0 \<le> b" "b \<le> 9" "0 \<le> c" "c \<le> 9" "0 \<le> e" "e \<le> 9"
  shows "decimal [digit_char a, digit_char b, digit_char c, digit_char e]
           = 1000 * a + 100 * b + 10 * c + e"
    and "list_all is_digit [digit_char a, digit_char b, digit_char c, digit_char e]"
  using assms by (simp_all add: decimal_def is_digit_def digit_char_code)

lemma pad2_reads:
  assumes "0 \<le> n" "n \<le> 99"
  shows "decimal (pad2 n) = n" and "list_all is_digit (pad2 n)" and "length (pad2 n) = 2"
proof -
  have q: "0 \<le> n div 10" "n div 10 \<le> 9" using assms by simp_all
  then have m: "n div 10 mod 10 = n div 10" by simp
  have r: "0 \<le> n mod 10" "n mod 10 \<le> 9" by simp_all
  show "decimal (pad2 n) = n" unfolding pad2_def m using decimal2(1) [OF q r] by simp
  show "list_all is_digit (pad2 n)" unfolding pad2_def m by (rule decimal2(2) [OF q r])
  show "length (pad2 n) = 2" by (simp add: pad2_def)
qed

lemma year_digits_reads:
  assumes "1000 \<le> y" "y \<le> 9999"
  shows "decimal (year_digits y) = y" and "list_all is_digit (year_digits y)"
    and "length (year_digits y) = 4"
proof -
  define a where "a = y div 1000"
  define b where "b = y div 100 mod 10"
  define c where "c = y div 10 mod 10"
  define e where "e = y mod 10"
  have yd: "year_digits y = [digit_char a, digit_char b, digit_char c, digit_char e]"
    using assms by (simp add: year_digits_def a_def b_def c_def e_def)
  have h1: "y = 10 * (y div 10) + e" unfolding e_def by simp
  have h2: "y div 10 = 10 * (y div 10 div 10) + c" unfolding c_def by simp
  have h3: "y div 10 div 10 = y div 100" by (simp add: div_mult2_eq [symmetric])
  have h4: "y div 100 = 10 * (y div 100 div 10) + b" unfolding b_def by simp
  have h5: "y div 100 div 10 = a" unfolding a_def by (simp add: div_mult2_eq [symmetric])
  have tot: "1000 * a + 100 * b + 10 * c + e = y" using h1 h2 h3 h4 h5 by linarith
  have bnd: "0 \<le> b" "b \<le> 9" "0 \<le> c" "c \<le> 9" "0 \<le> e" "e \<le> 9"
    unfolding b_def c_def e_def by simp_all
  have a: "0 \<le> a" "a \<le> 9" using tot bnd assms by linarith+
  show "decimal (year_digits y) = y"
    unfolding yd using decimal4(1) [OF a bnd] tot by simp
  show "list_all is_digit (year_digits y)" unfolding yd by (rule decimal4(2) [OF a bnd])
  show "length (year_digits y) = 4" unfolding yd by simp
qed

lemma year_from_ordinal:
  assumes "valid_date d"
  shows "364878 \<le> toordinal d \<Longrightarrow> 1000 \<le> year d"
    and "toordinal d \<le> MAXORDINAL \<Longrightarrow> year d \<le> 9999"
proof -
  have lo: "days_before_year 1000 = 364877" by (simp add: days_before_year_def)
  have hi: "days_before_year 10000 = 3652059" by (simp add: days_before_year_def)
  show "1000 \<le> year d" if "364878 \<le> toordinal d"
  proof (rule ccontr)
    assume "\<not> 1000 \<le> year d"
    then have "days_before_year (year d + 1) \<le> days_before_year 1000"
      by (intro dby_mono) simp
    with year_bounds(2) [OF assms] lo that show False by linarith
  qed
  show "year d \<le> 9999" if "toordinal d \<le> MAXORDINAL"
  proof (rule ccontr)
    assume "\<not> year d \<le> 9999"
    then have "days_before_year 10000 \<le> days_before_year (year d)"
      by (intro dby_mono) simp
    with year_bounds(1) [OF assms] hi that show False unfolding MAXORDINAL_def by linarith
  qed
qed

lemma format_date_iso:
  assumes "valid_date d" "1000 \<le> year d" "year d \<le> 9999"
  shows "iso_date_string d (format_date d)"
proof -
  have m: "0 \<le> month d" "month d \<le> 99" using assms(1) by (simp_all add: valid_date_def)
  have "day d \<le> days_in_month (year d) (month d)" using assms(1) by (simp add: valid_date_def)
  moreover have "days_in_month (year d) (month d) \<le> 31"
    using dim_bounds [of "month d" "year d"] assms(1) by (simp add: valid_date_def)
  ultimately have dd: "0 \<le> day d" "day d \<le> 99" using assms(1) by (simp_all add: valid_date_def)
  define ys where "ys = year_digits (year d)"
  define ms where "ms = pad2 (month d)"
  define ds where "ds = pad2 (day d)"
  have ly: "length ys = 4" unfolding ys_def by (rule year_digits_reads(3) [OF assms(2,3)])
  have lm: "length ms = 2" unfolding ms_def by (rule pad2_reads(3) [OF m])
  have ld: "length ds = 2" unfolding ds_def by (rule pad2_reads(3) [OF dd])
  define s where "s = ys @ CHR ''-'' # ms @ CHR ''-'' # ds"
  have s: "format_date d = s" by (simp add: format_date_def s_def ys_def ms_def ds_def)
  have len: "length s = 10" by (simp add: s_def ly lm ld)
  have n4: "s ! 4 = CHR ''-''" unfolding s_def using ly by (simp add: nth_append)
  have d5: "drop 5 s = ms @ CHR ''-'' # ds" unfolding s_def using ly by simp
  have n7: "s ! 7 = CHR ''-''"
  proof -
    have "s ! (5 + 2) = drop 5 s ! 2" using len by simp
    also have "\<dots> = CHR ''-''" unfolding d5 using lm by (simp add: nth_append)
    finally show ?thesis by simp
  qed
  have t4: "take 4 s = ys" unfolding s_def using ly by simp
  have t2: "take 2 (drop 5 s) = ms" unfolding d5 using lm by simp
  have "drop 8 s = drop 3 (drop 5 s)" by simp
  also have "\<dots> = ds" unfolding d5 using lm by simp
  finally have d8: "drop 8 s = ds" .
  show ?thesis
    unfolding iso_date_string_def s t4 t2 d8
    using len n4 n7 year_digits_reads(1,2) [OF assms(2,3)] pad2_reads(1,2) [OF m]
      pad2_reads(1,2) [OF dd]
    unfolding ys_def ms_def ds_def by simp
qed

text \<open>
  Claim C4, as the code has it. For an event date string that \<^verbatim>\<open>strptime\<close> accepts as the
  date \<open>E\<close> and a lag \<open>L \<ge> 0\<close>, \<^verbatim>\<open>get_date_ranges\<close> with its default offsets returns the
  four strings that \<^verbatim>\<open>strftime\<close> prints for \<open>E\<close> plus one day, \<open>E\<close> plus \<open>L\<close> days, \<open>E\<close>
  minus 30 days and \<open>E\<close> minus one day, counted on the calendar day by day (so month and
  year roll over); this holds exactly when all four dates lie between 0001-01-01 and
  9999-12-31, that is when \<open>E\<close> is later than day 30 of the calendar and \<open>E\<close> plus
  \<open>max 1 L\<close> days is no later than day 3652059 (9999-12-31). Otherwise the date arithmetic
  raises \<^verbatim>\<open>OverflowError\<close> and no range is returned. The four strings have the form
  \<^verbatim>\<open>YYYY-MM-DD\<close> when moreover \<open>E\<close> minus 30 days is not before 1000-01-01 (\<open>E\<close> is later
  than day 364907); a year below 1000 is printed with fewer than four digits.
\<close>

theorem get_date_ranges_calendar:
  assumes "parse s = Inr E" "0 \<le> L"
  shows "get_date_ranges s L 30 1 =
     (if 30 < toordinal E \<and> toordinal E + max 1 L \<le> MAXORDINAL
      then Inr (format_date (next_day E), format_date ((next_day ^^ nat L) E),
                format_date ((prev_day ^^ 30) E), format_date (prev_day E))
      else Inl OverflowError)
   \<and> (364907 < toordinal E \<and> toordinal E + max 1 L \<le> MAXORDINAL \<longrightarrow>
        iso_date_string (next_day E) (format_date (next_day E))
      \<and> iso_date_string ((next_day ^^ nat L) E) (format_date ((next_day ^^ nat L) E))
      \<and> iso_date_string ((prev_day ^^ 30) E) (format_date ((prev_day ^^ 30) E))
      \<and> iso_date_string (prev_day E) (format_date (prev_day E)))"
proof -
  have v: "valid_date E" "year E \<le> 9999" using parse_valid [OF assms(1)] by simp_all
  have iso: "iso_date_string d (format_date d)"
    if "valid_date d" "364878 \<le> toordinal d" "toordinal d \<le> MAXORDINAL" for d
    using that year_from_ordinal [OF that(1)] by (intro format_date_iso) simp_all
  have "iso_date_string (next_day E) (format_date (next_day E))
      \<and> iso_date_string ((next_day ^^ nat L) E) (format_date ((next_day ^^ nat L) E))
      \<and> iso_date_string ((prev_day ^^ 30) E) (format_date ((prev_day ^^ 30) E))
      \<and> iso_date_string (prev_day E) (format_date (prev_day E))"
    if r: "364907 < toordinal E" "toordinal E + max 1 L \<le> MAXORDINAL"
  proof -
    have n1: "valid_date (next_day E)" "toordinal (next_day E) = toordinal E + 1"
      using next_day_ok [OF v(1)] by simp_all
    have nL: "valid_date ((next_day ^^ nat L) E)"
        "toordinal ((next_day ^^ nat L) E) = toordinal E + L"
      using plus_days_ok [OF v(1), of "nat L"] assms(2) by simp_all
    have p30: "valid_date ((prev_day ^^ 30) E)"
        "toordinal ((prev_day ^^ 30) E) = toordinal E - 30"
      using minus_days_ok [OF v(1), of 30] r(1) by simp_all
    have p1: "valid_date (prev_day E)" "toordinal (prev_day E) = toordinal E - 1"
      using prev_day_ok [OF v(1)] r(1) by simp_all
    have "iso_date_string (next_day E) (format_date (next_day E))"
      by (rule iso [OF n1(1)]) (use n1(2) r in \<open>simp_all add: max_def split: if_splits\<close>)
    moreover have "iso_date_string ((next_day ^^ nat L) E) (format_date ((next_day ^^ nat L) E))"
      by (rule iso [OF nL(1)]) (use nL(2) r assms(2) in \<open>simp_all add: max_def split: if_splits\<close>)
    moreover have "iso_date_string ((prev_day ^^ 30) E) (format_date ((prev_day ^^ 30) E))"
      by (rule iso [OF p30(1)]) (use p30(2) r in \<open>simp_all add: max_def split: if_splits\<close>)
    moreover have "iso_date_string (prev_day E) (format_date (prev_day E))"
      by (rule iso [OF p1(1)]) (use p1(2) r in \<open>simp_all add: max_def split: if_splits\<close>)
    ultimately show ?thesis by simp
  qed
  with get_date_ranges_value [OF assms] show ?thesis by simp
qed

lemmas date_eval = parse_def digit_def days_in_month_def DAYS_IN_MONTH_def is_leap_def
  toordinal_def ymd2ord_def days_before_year_def days_before_month_def DAYS_BEFORE_MONTH_def
  MAXORDINAL_def format_date_def next_day_def prev_day_def pad2_def year_digits_def digit_char_def
  ord2ymd_def yday2md_def Let_def timedelta_def date_add_def date_sub_def then_do_def
  get_date_ranges_def

text \<open>
  The theorem at the event of 15 July 2023 with a lag of ten days: the post-event window is
  2023-07-16 to 2023-07-25 and the reference window 2023-06-15 to 2023-07-14, and the
  string for the start of the reference window reads as the date 15 June 2023.
\<close>

theorem get_date_ranges_calendar_witness:
  "parse ''2023-07-15'' = Inr (Date 2023 7 15) \<and> (0::int) \<le> 10
   \<and> get_date_ranges ''2023-07-15'' 10 30 1 =
       Inr (''2023-07-16'', ''2023-07-25'', ''2023-06-15'', ''2023-07-14'')
   \<and> iso_date_string (Date 2023 6 15) ''2023-06-15''"
proof -
  have p: "parse ''2023-07-15'' = Inr (Date 2023 7 15)" by (simp add: date_eval)
  have l: "(0::int) \<le> 10" by simp
  have r: "30 < toordinal (Date 2023 7 15)" "364907 < toordinal (Date 2023 7 15)"
      "toordinal (Date 2023 7 15) + max 1 10 \<le> MAXORDINAL"
    by (simp_all add: date_eval)
  have f1: "format_date (next_day (Date 2023 7 15)) = ''2023-07-16''"
    by (simp add: date_eval)
  have f2: "format_date ((next_day ^^ nat 10) (Date 2023 7 15)) = ''2023-07-25''"
    by (simp add: date_eval eval_nat_numeral)
  have d3: "(prev_day ^^ 30) (Date 2023 7 15) = Date 2023 6 15"
    by (simp add: date_eval eval_nat_numeral)
  have f3: "format_date (Date 2023 6 15) = ''2023-06-15''"
    by (simp add: date_eval)
  have f4: "format_date (prev_day (Date 2023 7 15)) = ''2023-07-14''"
    by (simp add: date_eval)
  from get_date_ranges_calendar [OF p l] r
  have "get_date_ranges ''2023-07-15'' 10 30 1 =
       Inr (''2023-07-16'', ''2023-07-25'', ''2023-06-15'', ''2023-07-14'')"
    and "iso_date_string (Date 2023 6 15) ''2023-06-15''"
    unfolding f1 f2 d3 f3 f4 by simp_all
  with p l show ?thesis by simp
qed

text \<open>
  The claim as the specification words it, for every valid event date and every lag, fails at
  the last day of the calendar: 9999-12-31 is a valid event date, and with any lag the
  post-event window would start on a day that \<^verbatim>\<open>datetime\<close> cannot represent. It also fails
  in the year 1000: for the event of 15 January 1000 the reference window starts in the
  year 999, which is printed as \<^verbatim>\<open>999-12-16\<close> and not in the form \<^verbatim>\<open>YYYY-MM-DD\<close>.
\<close>

theorem get_date_ranges_overflow_counterexample:
  "parse ''9999-12-31'' = Inr (Date 9999 12 31)
   \<and> get_date_ranges ''9999-12-31'' 0 30 1 = Inl OverflowError
   \<and> parse ''1000-01-15'' = Inr (Date 1000 1 15)
   \<and> get_date_ranges ''1000-01-15'' 10 30 1
       = Inr (''1000-01-16'', ''1000-01-25'', ''999-12-16'', ''1000-01-14'')"
  by (simp add: date_eval)

section \<open>Verification: suppression of permanent water and clouds\<close>

lemma image_record_eqI:
  "band a = band b \<Longrightarrow> px a = px b \<Longrightarrow> props a = props b \<Longrightarrow> (a::image) = b"
  by simp

lemma suppress_commute:
  "suppress_permanent_water pw (suppress_clouds cm flood)
     = suppress_clouds cm (suppress_permanent_water pw flood)"
  unfolding suppress_permanent_water_def suppress_clouds_def image_where_def image_eq_def
  by (rule image_record_eqI) (auto simp: fun_eq_iff split: option.splits)

lemma suppress_pw_idem:
  "suppress_permanent_water pw (suppress_permanent_water pw flood)
     = suppress_permanent_water pw flood"
  unfolding suppress_permanent_water_def image_where_def image_eq_def
  by (rule image_record_eqI) (auto simp: fun_eq_iff split: option.splits)

lemma suppress_cloud_idem:
  "suppress_clouds cm (suppress_clouds cm flood) = suppress_clouds cm flood"
  unfolding suppress_clouds_def image_where_def image_eq_def
  by (rule image_record_eqI) (auto simp: fun_eq_iff split: option.splits)

text \<open>
  Claim C7. The two suppression steps of \<^verbatim>\<open>_classify_and_mask\<close>, which force a flood
  pixel to 0 where the permanent-water mask is 1 and where the cloud mask is 1, can be
  applied in either order, and applying one of them twice is the same as applying it once;
  the final flood mask, after the last masking step, is the same image in either order,
  pixel for pixel.
\<close>

theorem suppression_order_independent:
  "suppress_permanent_water pw (suppress_clouds cm flood)
     = suppress_clouds cm (suppress_permanent_water pw flood)
   \<and> suppress_permanent_water pw (suppress_permanent_water pw flood)
     = suppress_permanent_water pw flood
   \<and> suppress_clouds cm (suppress_clouds cm flood) = suppress_clouds cm flood
   \<and> finish_mask (suppress_permanent_water pw (suppress_clouds cm flood))
     = finish_mask (suppress_clouds cm (suppress_permanent_water pw flood))"
  using suppress_commute [of pw cm flood] suppress_pw_idem [of pw flood]
    suppress_cloud_idem [of cm flood]
  by simp

lemma suppress_px:
  "px (suppress_clouds cm (suppress_permanent_water pw flood)) p =
     (case px flood p of
        None \<Rightarrow> None
      | Some v \<Rightarrow> if px pw p = Some 1 \<or> px cm p = Some 1 then Some 0 else Some v)"
  unfolding suppress_permanent_water_def suppress_clouds_def image_where_def image_eq_def
  by (auto split: option.splits)

section \<open>Verification: choice of the flood cluster\<close>

lemma classify_kmeans_two:
  assumes "cluster_means be ndwi (cluster_assignment be ndwi aoi 2) aoi 2 = [x, y]"
    and "list_reduce_max [x, y] = Some h"
  shows "\<exists>flood. classify_kmeans be ndwi aoi 2 = Inr flood
     \<and> px flood = indicator_of (cluster_assignment be ndwi aoi 2) (of_int (list_indexOf [x, y] h))"
  using assms
  by (simp add: classify_kmeans_def Let_def indicator_of_def image_set_def rename_def image_eq_def)

lemmas ee_eval = cluster_means_def cluster_assignment_def reduceRegion_mean_def
  updateMask_def image_eq_def image_cluster_def rename_def grid_backend_def ndwi_of_def
  split_at_half_def middle_apart_def single_cluster_def second_cluster_def
  upt_conv_Cons indicator_of_def Let_def



text \<open>
  Claim C10. When the two cluster means are exactly equal, the selection does not fail:
  the first index, cluster 0, is the flood cluster, and the flood mask is the indicator of
  cluster 0.
\<close>

theorem classify_kmeans_tie:
  assumes "cluster_means be ndwi (cluster_assignment be ndwi aoi 2) aoi 2 = [Some m, Some m]"
  shows "\<exists>flood. classify_kmeans be ndwi aoi 2 = Inr flood
     \<and> px flood = indicator_of (cluster_assignment be ndwi aoi 2) 0"
proof -
  have h: "list_reduce_max [Some m, Some m] = Some m" by simp
  have i: "list_indexOf [Some m, Some m] m = 0" by simp
  from classify_kmeans_two [OF assms(1) h] show ?thesis unfolding i by simp
qed

text \<open>
  The theorem on three pixels with water index 0, 1/2 and 1, where the middle value alone
  forms cluster 1: both means are 1/2 and the mask is the indicator of cluster 0.
\<close>

theorem classify_kmeans_tie_witness:
  "cluster_means (grid_backend middle_apart)
      (ndwi_of [((0, 0), 0), ((1, 0), 1 / 2), ((2, 0), 1)])
      (cluster_assignment (grid_backend middle_apart)
         (ndwi_of [((0, 0), 0), ((1, 0), 1 / 2), ((2, 0), 1)]) [(0, 0), (1, 0), (2, 0)] 2)
      [(0, 0), (1, 0), (2, 0)] 2 = [Some (1 / 2), Some (1 / 2)]
   \<and> px (projr (classify_kmeans (grid_backend middle_apart)
                   (ndwi_of [((0, 0), 0), ((1, 0), 1 / 2), ((2, 0), 1)])
                   [(0, 0), (1, 0), (2, 0)] 2)) (0, 0) = Some 1
   \<and> px (projr (classify_kmeans (grid_backend middle_apart)
                   (ndwi_of [((0, 0), 0), ((1, 0), 1 / 2), ((2, 0), 1)])
                   [(0, 0), (1, 0), (2, 0)] 2)) (1, 0) = Some 0"
proof -
  let ?be = "grid_backend middle_apart"
  let ?ndwi = "ndwi_of [((0, 0), 0), ((1, 0), 1 / 2), ((2, 0), 1)]"
  let ?aoi = "[(0, 0), (1, 0), (2, 0)] :: pixel list"
  have m: "cluster_means ?be ?ndwi (cluster_assignment ?be ?ndwi ?aoi 2) ?aoi 2
      = [Some (1 / 2), Some (1 / 2)]"
    by (simp add: ee_eval)
  from classify_kmeans_tie [OF m]
  obtain flood where f: "classify_kmeans ?be ?ndwi ?aoi 2 = Inr flood"
    and p: "px flood = indicator_of (cluster_assignment ?be ?ndwi ?aoi 2) 0"
    by auto
  have "px flood (0, 0) = Some 1" "px flood (1, 0) = Some 0"
    unfolding p by (simp_all add: ee_eval)
  with m f show ?thesis by simp
qed

lemma map_collection_Inl:
  assumes "isl (f x)"
  shows "isl (map_collection f (before @ x # after))"
proof (induction before)
  case Nil
  show ?case using assms by (cases "f x") (simp_all add: then_do_def)
next
  case (Cons b before)
  then show ?case
    by (cases "f b"; cases "map_collection f (before @ x # after)") (simp_all add: then_do_def)
qed

lemma classify_and_mask_isl:
  "isl (classify_and_mask be aoi pw img) = isl (classify_kmeans be (select_NDWI img) aoi 2)"
  by (cases "classify_kmeans be (select_NDWI img) aoi 2")
    (simp_all add: classify_and_mask_def then_do_def Let_def)

lemma classify_kmeans_no_mean:
  assumes "cluster_means be ndwi (cluster_assignment be ndwi aoi 2) aoi 2 = [None, None]"
  shows "isl (classify_kmeans be ndwi aoi 2)"
  using assms by (simp add: classify_kmeans_def Let_def)

text \<open>
  Claim C2, as the code has it. \<^verbatim>\<open>classify_kmeans\<close> does not check that the cluster means
  are defined before it compares them. For a mosaic date on which at least one of the two
  means is undefined: when exactly one is undefined, the maximum is taken over the mean
  that is defined, the cluster of that mean becomes the flood cluster, and a flood mask is
  returned for the date without any error; when both are undefined, the maximum is
  \<^verbatim>\<open>null\<close>, \<^verbatim>\<open>indexOf\<close> fails on it, and the classification of that date is an error.
  That error is not confined to the date: the collection that \<^verbatim>\<open>_classify_and_mask\<close> is
  mapped over fails as a whole when it is evaluated, wherever the date stands in it, so the
  flood masks of the other dates are not delivered either.
\<close>

theorem classify_kmeans_undefined_means:
  assumes "cluster_means be (select_NDWI img) (cluster_assignment be (select_NDWI img) aoi 2)
             aoi 2 = [x, y]"
    and "x = None \<or> y = None"
  shows "if x = None \<and> y = None
         then isl (classify_kmeans be (select_NDWI img) aoi 2)
            \<and> isl (classify_and_mask be aoi pw img)
            \<and> (\<forall>before after.
                  isl (map_collection (classify_and_mask be aoi pw) (before @ img # after)))
         else (\<exists>flood. classify_kmeans be (select_NDWI img) aoi 2 = Inr flood
            \<and> px flood = indicator_of (cluster_assignment be (select_NDWI img) aoi 2)
                           (if y = None then 0 else 1))"
proof (cases "x = None \<and> y = None")
  case True
  with assms(1) have e: "isl (classify_kmeans be (select_NDWI img) aoi 2)"
    by (intro classify_kmeans_no_mean) simp
  then have c: "isl (classify_and_mask be aoi pw img)" by (simp add: classify_and_mask_isl)
  have "isl (map_collection (classify_and_mask be aoi pw) (before @ img # after))"
    for before after
    using map_collection_Inl [of "classify_and_mask be aoi pw" img before after] c by simp
  with e c True show ?thesis by simp
next
  case False
  show ?thesis
  proof (cases y)
    case None
    with False obtain m where x: "x = Some m" by auto
    have h: "list_reduce_max [x, y] = Some m" using x None by simp
    have i: "list_indexOf [x, y] m = 0" using x by simp
    from classify_kmeans_two [OF assms(1) h] show ?thesis unfolding i using None x by simp
  next
    case (Some m)
    with assms(2) have x: "x = None" by auto
    have h: "list_reduce_max [x, y] = Some m" using x Some by simp
    have i: "list_indexOf [x, y] m = 1" using x Some by simp
    from classify_kmeans_two [OF assms(1) h] show ?thesis unfolding i using Some x by simp
  qed
qed

text \<open>
  The theorem on a mosaic whose water index is masked everywhere, so that both means are
  undefined: the collection of this mosaic and the mosaic of 16 July 2023 fails. And on the
  mosaic of 16 July 2023 with every pixel in cluster 1: the mean of cluster 0 is undefined,
  the mean of cluster 1 is 9/20, and the first pixel is flood.
\<close>

theorem classify_kmeans_undefined_means_witness:
  "cluster_means (grid_backend split_at_half) (select_NDWI mosaic_masked)
      (cluster_assignment (grid_backend split_at_half) (select_NDWI mosaic_masked)
         [(0, 0), (1, 0)] 2)
      [(0, 0), (1, 0)] 2 = [None, None]
   \<and> isl (map_collection (classify_and_mask (grid_backend split_at_half) [(0, 0), (1, 0)] no_water)
            [mosaic_2023_07_16, mosaic_masked])
   \<and> cluster_means (grid_backend second_cluster) (select_NDWI mosaic_2023_07_16)
      (cluster_assignment (grid_backend second_cluster) (select_NDWI mosaic_2023_07_16)
         [(0, 0), (1, 0)] 2)
      [(0, 0), (1, 0)] 2 = [None, Some (9 / 20)]
   \<and> px (projr (classify_kmeans (grid_backend second_cluster) (select_NDWI mosaic_2023_07_16)
                   [(0, 0), (1, 0)] 2)) (0, 0) = Some 1"
proof -
  let ?aoi = "[(0, 0), (1, 0)] :: pixel list"
  let ?be = "grid_backend split_at_half"
  let ?be2 = "grid_backend second_cluster"
  let ?bad = "select_NDWI mosaic_masked"
  let ?ndwi = "select_NDWI mosaic_2023_07_16"
  have m: "cluster_means ?be ?bad (cluster_assignment ?be ?bad ?aoi 2) ?aoi 2 = [None, None]"
    by (simp add: ee_eval select_NDWI_def mosaic_masked_def)
  have u: "(None :: rat option) = None \<or> (None :: rat option) = None" by simp
  from classify_kmeans_undefined_means [OF m u, of no_water]
  have "\<forall>before after. isl (map_collection (classify_and_mask ?be ?aoi no_water)
          (before @ mosaic_masked # after))"
    by simp
  then have "isl (map_collection (classify_and_mask ?be ?aoi no_water)
      ([mosaic_2023_07_16] @ mosaic_masked # []))"
    by blast
  then have a: "isl (map_collection (classify_and_mask ?be ?aoi no_water)
      [mosaic_2023_07_16, mosaic_masked])"
    by simp
  have m2: "cluster_means ?be2 ?ndwi (cluster_assignment ?be2 ?ndwi ?aoi 2) ?aoi 2
      = [None, Some (9 / 20)]"
    by (simp add: ee_eval select_NDWI_def mosaic_2023_07_16_def)
  have u2: "(None :: rat option) = None \<or> Some (9 / 20 :: rat) = None" by simp
  from classify_kmeans_undefined_means [OF m2 u2, of no_water]
  obtain flood where f: "classify_kmeans ?be2 ?ndwi ?aoi 2 = Inr flood"
    and p: "px flood = indicator_of (cluster_assignment ?be2 ?ndwi ?aoi 2) 1"
    by auto
  have "px flood (0, 0) = Some 1"
    unfolding p by (simp add: ee_eval select_NDWI_def mosaic_2023_07_16_def)
  with m a m2 f show ?thesis by simp
qed

text \<open>
  The claim as the specification words it fails in both of its parts. On a raster whose
  pixels all fall into cluster 0 the mean of cluster 1 is undefined, and the classification
  returns a flood mask rather than an error. And a failure is not confined to its date: the
  mosaic of 16 July 2023 is classified without error on its own, the fully masked mosaic
  fails, and the collection of the two fails.
\<close>

theorem classify_kmeans_no_validation_counterexample:
  "cluster_means (grid_backend single_cluster) (ndwi_of [((0, 0), 1 / 2), ((1, 0), 1 / 2)])
      (cluster_assignment (grid_backend single_cluster)
         (ndwi_of [((0, 0), 1 / 2), ((1, 0), 1 / 2)]) [(0, 0), (1, 0)] 2)
      [(0, 0), (1, 0)] 2 = [Some (1 / 2), None]
   \<and> \<not> isl (classify_kmeans (grid_backend single_cluster)
               (ndwi_of [((0, 0), 1 / 2), ((1, 0), 1 / 2)]) [(0, 0), (1, 0)] 2)
   \<and> px (projr (classify_kmeans (grid_backend single_cluster)
                   (ndwi_of [((0, 0), 1 / 2), ((1, 0), 1 / 2)]) [(0, 0), (1, 0)] 2)) (0, 0)
       = Some 1
   \<and> \<not> isl (classify_and_mask (grid_backend split_at_half) [(0, 0), (1, 0)] no_water
               mosaic_2023_07_16)
   \<and> isl (classify_and_mask (grid_backend split_at_half) [(0, 0), (1, 0)] no_water
             mosaic_masked)
   \<and> isl (map_collection (classify_and_mask (grid_backend split_at_half) [(0, 0), (1, 0)] no_water)
            [mosaic_2023_07_16, mosaic_masked])"
proof -
  let ?be = "grid_backend single_cluster"
  let ?ndwi = "ndwi_of [((0, 0), 1 / 2), ((1, 0), 1 / 2)]"
  let ?aoi = "[(0, 0), (1, 0)] :: pixel list"
  let ?be2 = "grid_backend split_at_half"
  have m: "cluster_means ?be ?ndwi (cluster_assignment ?be ?ndwi ?aoi 2) ?aoi 2
      = [Some (1 / 2), None]"
    by (simp add: ee_eval)
  have h: "list_reduce_max [Some (1 / 2), None] = Some (1 / 2)" by simp
  from classify_kmeans_two [OF m h]
  obtain flood where f: "classify_kmeans ?be ?ndwi ?aoi 2 = Inr flood"
    and p: "px flood = indicator_of (cluster_assignment ?be ?ndwi ?aoi 2)
              (of_int (list_indexOf [Some (1 / 2), None] (1 / 2)))"
    by auto
  have one: "px flood (0, 0) = Some 1"
    unfolding p by (simp add: ee_eval)
  let ?good = "select_NDWI mosaic_2023_07_16"
  have mg: "cluster_means ?be2 ?good (cluster_assignment ?be2 ?good ?aoi 2) ?aoi 2
      = [Some (1 / 10), Some (4 / 5)]"
    by (simp add: ee_eval select_NDWI_def mosaic_2023_07_16_def)
  have hg: "list_reduce_max [Some (1 / 10), Some (4 / 5)] = Some (4 / 5)" by simp
  from classify_kmeans_two [OF mg hg]
  have "\<not> isl (classify_kmeans ?be2 ?good ?aoi 2)" by auto
  then have good: "\<not> isl (classify_and_mask ?be2 ?aoi no_water mosaic_2023_07_16)"
    by (simp add: classify_and_mask_isl)
  let ?bad = "select_NDWI mosaic_masked"
  have mb: "cluster_means ?be2 ?bad (cluster_assignment ?be2 ?bad ?aoi 2) ?aoi 2 = [None, None]"
    by (simp add: ee_eval select_NDWI_def mosaic_masked_def)
  have bad: "isl (classify_and_mask ?be2 ?aoi no_water mosaic_masked)"
    using classify_kmeans_no_mean [OF mb] by (simp add: classify_and_mask_isl)
  have "isl (map_collection (classify_and_mask ?be2 ?aoi no_water)
      ([mosaic_2023_07_16] @ mosaic_masked # []))"
    using map_collection_Inl [of "classify_and_mask ?be2 ?aoi no_water" mosaic_masked
        "[mosaic_2023_07_16]" "[]"] bad
    by simp
  then have coll: "isl (map_collection (classify_and_mask ?be2 ?aoi no_water)
      [mosaic_2023_07_16, mosaic_masked])"
    by simp
  from m f one good bad coll show ?thesis by simp
qed

section \<open>Verification: area to pixel count\<close>

lemma nearest_int_fix:
  assumes "nearest_int r"
  shows "r (of_int n) = n"
proof -
  have "\<bar>(of_int (r (of_int n)) :: rat) - of_int n\<bar> \<le> 1 / 2"
    using assms unfolding nearest_int_def by blast
  then have "\<bar>(of_int (r (of_int n) - n) :: rat)\<bar> < 1" by simp
  then have "\<bar>r (of_int n) - n\<bar> < 1" by (metis of_int_abs of_int_less_1_iff)
  then show ?thesis by linarith
qed

text \<open>
  Claim C8. The pixel threshold is the minimum area divided by 100 and rounded by
  \<^verbatim>\<open>ee.Number.round\<close>. For any rounding to the nearest integer, a minimum area of 10000
  gives exactly 100 pixels, a minimum area of 250 gives the rounding of 5/2, which is 2 or
  3 as the rounding function fixes it, and for every minimum area the threshold is within
  one half of the area divided by 100.
\<close>

theorem min_pixels_nearest:
  assumes "nearest_int (number_round be)"
  shows "min_pixels be 10000 = 100
     \<and> min_pixels be 250 = number_round be (5 / 2)
     \<and> (min_pixels be 250 = 2 \<or> min_pixels be 250 = 3)
     \<and> \<bar>of_int (min_pixels be min_area) - min_area / 100\<bar> \<le> 1 / 2"
proof -
  have a: "min_pixels be 10000 = 100"
    using nearest_int_fix [OF assms, of 100] by (simp add: min_pixels_def)
  have b: "min_pixels be 250 = number_round be (5 / 2)" by (simp add: min_pixels_def)
  have "\<bar>(of_int (number_round be (5 / 2)) :: rat) - 5 / 2\<bar> \<le> 1 / 2"
    using assms unfolding nearest_int_def by blast
  then have "(2 :: rat) \<le> of_int (number_round be (5 / 2))"
      "(of_int (number_round be (5 / 2)) :: rat) \<le> 3"
    by linarith+
  then have "2 \<le> number_round be (5 / 2)" "number_round be (5 / 2) \<le> 3"
    by simp_all
  then have c: "min_pixels be 250 = 2 \<or> min_pixels be 250 = 3" unfolding b by linarith
  have d: "\<bar>of_int (min_pixels be min_area) - min_area / 100\<bar> \<le> 1 / 2"
    using assms unfolding nearest_int_def min_pixels_def by blast
  from a b c d show ?thesis by simp
qed

lemma grid_round_nearest: "nearest_int (number_round (grid_backend c))"
proof -
  have "\<bar>of_int \<lfloor>x + 1 / 2\<rfloor> - x\<bar> \<le> 1 / 2" for x :: rat
    by linarith
  then show ?thesis by (simp add: nearest_int_def grid_backend_def)
qed

text \<open>With rounding half up, the thresholds for 10000 and 250 are 100 and 3.\<close>

theorem min_pixels_nearest_witness:
  "nearest_int (number_round (grid_backend single_cluster))
   \<and> min_pixels (grid_backend single_cluster) 10000 = 100
   \<and> min_pixels (grid_backend single_cluster) 250 = 3"
proof -
  have n: "nearest_int (number_round (grid_backend single_cluster))"
    by (rule grid_round_nearest)
  have "min_pixels (grid_backend single_cluster) 250 = 3"
    by (simp add: min_pixels_def grid_backend_def)
  with n min_pixels_nearest [OF n, of 0] show ?thesis by simp
qed

section \<open>Verification: the patch filter\<close>

lemma connectedPixelCount_le:
  assumes "px (connectedPixelCount n img) p = Some v"
  shows "v \<le> of_nat n"
  using assms unfolding connectedPixelCount_def
  by (auto split: option.splits if_splits)

lemma process_image_px:
  "px (process_image be roi min_area img) p =
     (case px img p of
        None \<Rightarrow> None
      | Some v \<Rightarrow>
          if p \<in> set (geom_pixels be roi) \<and> v \<noteq> 0
             \<and> (\<exists>n. px (connectedPixelCount 128 img) p = Some n
                      \<and> of_int (min_pixels be min_area) \<le> n)
          then Some v else None)"
  unfolding process_image_def Let_def image_set_def toFloat_def selfMask_def updateMask_def
    rename_def clip_def clip_raster_def image_gte_def
  by (auto simp: connectedPixelCount_def split: option.splits)

text \<open>
  Claim C6 says that a patch of more than 128 pixels is kept whatever the threshold. The
  code compares the capped count with the threshold, so a pixel threshold above 128 is
  never met: every pixel of every patch is masked, whatever the size of the patch.
\<close>

theorem process_image_drops_patches_above_cap:
  assumes "128 < min_pixels be min_area"
  shows "px (process_image be roi min_area img) p = None"
proof (cases "px img p")
  case None
  then show ?thesis by (simp add: process_image_px)
next
  case (Some v)
  have "\<not> (\<exists>n. px (connectedPixelCount 128 img) p = Some n
            \<and> of_int (min_pixels be min_area) \<le> n)"
  proof
    assume "\<exists>n. px (connectedPixelCount 128 img) p = Some n
        \<and> of_int (min_pixels be min_area) \<le> n"
    then obtain n where n: "px (connectedPixelCount 128 img) p = Some n"
      and le: "(of_int (min_pixels be min_area) :: rat) \<le> n" by blast
    from connectedPixelCount_le [OF n] have "n \<le> 128" by simp
    with le have "(of_int (min_pixels be min_area) :: rat) \<le> of_int 128" by simp
    then have "min_pixels be min_area \<le> 128" by (simp only: of_int_le_iff)
    with assms show False by simp
  qed
  then show ?thesis using Some by (simp add: process_image_px)
qed

text \<open>
  With a threshold of at most 128 the filter is as the claim says: a flood pixel inside the
  region is kept exactly when its patch has at least that many pixels.
\<close>

lemma process_image_below_cap:
  assumes "min_pixels be min_area \<le> 128" "finite (patch (px img) p)"
    and "px img p = Some v" "v \<noteq> 0" "p \<in> set (geom_pixels be roi)"
  shows "px (process_image be roi min_area img) p =
     (if min_pixels be min_area \<le> int (card (patch (px img) p)) then Some v else None)"
proof (cases "card (patch (px img) p) \<le> 128")
  case True
  have "((of_int (min_pixels be min_area) :: rat) \<le> of_nat (card (patch (px img) p)))
      = (min_pixels be min_area \<le> int (card (patch (px img) p)))"
    by (metis of_int_le_iff of_int_of_nat_eq)
  then show ?thesis
    using assms True by (simp add: process_image_px connectedPixelCount_def)
next
  case False
  then have big: "128 < int (card (patch (px img) p))" by simp
  have "(of_int (min_pixels be min_area) :: rat) \<le> of_int 128"
    using assms(1) by (simp only: of_int_le_iff)
  then show ?thesis
    using assms False big by (simp add: process_image_px connectedPixelCount_def)
qed

lemma flood_row_patch:
  assumes "0 < n"
  shows "patch (px (flood_row n)) (0, 0) = (\<lambda>i. (int i, 0)) ` {0..<n}"
proof
  let ?r = "px (flood_row n)"
  have inv: "?r q \<noteq> None" if "((0, 0), q) \<in> (patch_step ?r)\<^sup>*" for q
    using that
  proof (induction rule: rtrancl_induct)
    case base
    show ?case using assms by (simp add: flood_row_def)
  next
    case (step y z)
    then show ?case by (auto simp: patch_step_def)
  qed
  show "patch ?r (0, 0) \<subseteq> (\<lambda>i. (int i, 0)) ` {0..<n}"
  proof
    fix q assume "q \<in> patch ?r (0, 0)"
    then have "?r q \<noteq> None" using inv by (simp add: patch_def)
    then have q: "snd q = 0" "0 \<le> fst q" "fst q < int n"
      by (auto simp: flood_row_def split: if_splits)
    then have "q = (int (nat (fst q)), 0)" by (cases q) simp
    moreover have "nat (fst q) \<in> {0..<n}" using q by auto
    ultimately show "q \<in> (\<lambda>i. (int i, 0)) ` {0..<n}" by blast
  qed
  have reach: "i < n \<Longrightarrow> ((0, 0), (int i, 0)) \<in> (patch_step ?r)\<^sup>*" for i
  proof (induction i)
    case 0
    show ?case by simp
  next
    case (Suc i)
    then have "((0, 0), (int i, 0)) \<in> (patch_step ?r)\<^sup>*" by simp
    moreover have "((int i, 0), (int (Suc i), 0)) \<in> patch_step ?r"
      using Suc.prems by (simp add: patch_step_def adjacent8_def flood_row_def)
    ultimately show ?case by (rule rtrancl_into_rtrancl)
  qed
  show "(\<lambda>i. (int i, 0)) ` {0..<n} \<subseteq> patch ?r (0, 0)"
    using reach by (auto simp: patch_def)
qed

lemma flood_row_patch_card:
  assumes "0 < n"
  shows "finite (patch (px (flood_row n)) (0, 0)) \<and> card (patch (px (flood_row n)) (0, 0)) = n"
proof -
  have "inj_on (\<lambda>i. (int i, 0 :: int)) {0..<n}" by (simp add: inj_on_def)
  then have "card ((\<lambda>i. (int i, 0 :: int)) ` {0..<n}) = n" by (simp add: card_image)
  then show ?thesis unfolding flood_row_patch [OF assms] by simp
qed

text \<open>
  A minimum area of 20000 gives a threshold of 200 pixels. A row of 200 flood pixels is one
  patch of 200 pixels, which meets the threshold and exceeds the cap, and is dropped.
\<close>

theorem process_image_drops_patches_above_cap_witness:
  "128 < min_pixels (grid_backend single_cluster) 20000
   \<and> min_pixels (grid_backend single_cluster) 20000 = 200
   \<and> px (flood_row 200) (0, 0) = Some 1
   \<and> (0, 0) \<in> set (geom_pixels (grid_backend single_cluster) (row_pixels 200))
   \<and> card (patch (px (flood_row 200)) (0, 0)) = 200
   \<and> px (process_image (grid_backend single_cluster) (row_pixels 200) 20000 (flood_row 200))
        (0, 0) = None"
proof -
  have m: "min_pixels (grid_backend single_cluster) 20000 = 200"
    using nearest_int_fix [OF grid_round_nearest, of single_cluster 200]
    by (simp add: min_pixels_def)
  then have big: "128 < min_pixels (grid_backend single_cluster) 20000" by simp
  have f: "px (flood_row 200) (0, 0) = Some 1" by (simp add: flood_row_def)
  have "(0, 0) = (\<lambda>i. (int i, 0 :: int)) 0" "(0 :: nat) \<in> {0..<200}" by simp_all
  then have "(0, 0) \<in> (\<lambda>i. (int i, 0 :: int)) ` {0..<200}" by (rule image_eqI)
  then have r: "(0, 0) \<in> set (geom_pixels (grid_backend single_cluster) (row_pixels 200))"
    by (simp add: grid_backend_def row_pixels_def)
  have c: "card (patch (px (flood_row 200)) (0, 0)) = 200"
    using flood_row_patch_card [of 200] by simp
  from process_image_drops_patches_above_cap [OF big] m big f r c show ?thesis by simp
qed

section \<open>Verification: the date property\<close>

lemma classify_and_mask_props:
  assumes "classify_and_mask be aoi pw img = Inr flood"
  shows "props flood = no_props(''system:time_start'' := m_props img ''system:time_start'')"
proof (cases "classify_kmeans be (select_NDWI img) aoi 2")
  case (Inl e)
  with assms show ?thesis by (simp add: classify_and_mask_def then_do_def Let_def)
next
  case (Inr labelled)
  with assms show ?thesis
    by (auto simp: classify_and_mask_def then_do_def Let_def finish_mask_def rename_def
        updateMask_def suppress_clouds_def suppress_permanent_water_def image_where_def
        image_eq_def image_set_def)
qed

text \<open>
  Claim C9 says that the flood depth layer carries the \<^verbatim>\<open>date\<close> property of its daily
  mosaic. \<^verbatim>\<open>process_image\<close> copies the \<^verbatim>\<open>date\<close> property of the flood mask it is given,
  but \<^verbatim>\<open>_classify_and_mask\<close> hands it a mask that has \<^verbatim>\<open>system:time_start\<close> alone: the
  comparisons drop the properties of the mosaic and only \<^verbatim>\<open>system:time_start\<close> is set
  again. The flood mask and the layer made from it have no \<^verbatim>\<open>date\<close> property.
\<close>

theorem date_property_not_carried:
  assumes "classify_and_mask be aoi pw img = Inr flood"
  shows "image_get flood ''date'' = None
     \<and> image_get (process_image be aoi min_area flood) ''date'' = None"
proof -
  have "props flood ''date'' = None"
    unfolding classify_and_mask_props [OF assms] by (simp add: no_props_def)
  then show ?thesis
    by (simp add: image_get_def process_image_def Let_def image_set_def)
qed

text \<open>
  The mosaic of 16 July 2023: its \<^verbatim>\<open>date\<close> is set, the classification succeeds, and the
  layer has the timestamp of the mosaic and no \<^verbatim>\<open>date\<close>.
\<close>

theorem date_property_not_carried_witness:
  "m_props mosaic_2023_07_16 ''date'' = Some (PStr ''2023-07-16'')
   \<and> \<not> isl (classify_and_mask (grid_backend split_at_half) [(0, 0), (1, 0)] no_water
              mosaic_2023_07_16)
   \<and> image_get (process_image (grid_backend split_at_half) [(0, 0), (1, 0)] 100
        (projr (classify_and_mask (grid_backend split_at_half) [(0, 0), (1, 0)] no_water
                  mosaic_2023_07_16))) ''date'' = None
   \<and> image_get (process_image (grid_backend split_at_half) [(0, 0), (1, 0)] 100
        (projr (classify_and_mask (grid_backend split_at_half) [(0, 0), (1, 0)] no_water
                  mosaic_2023_07_16))) ''system:time_start'' = Some (PNum 1689465600000)"
proof -
  let ?be = "grid_backend split_at_half"
  let ?aoi = "[(0, 0), (1, 0)] :: pixel list"
  let ?ndwi = "select_NDWI mosaic_2023_07_16"
  have d: "m_props mosaic_2023_07_16 ''date'' = Some (PStr ''2023-07-16'')"
    by (simp add: mosaic_2023_07_16_def)
  have m: "cluster_means ?be ?ndwi (cluster_assignment ?be ?ndwi ?aoi 2) ?aoi 2
      = [Some (1 / 10), Some (4 / 5)]"
    by (simp add: ee_eval select_NDWI_def mosaic_2023_07_16_def)
  have h: "list_reduce_max [Some (1 / 10), Some (4 / 5)] = Some (4 / 5)" by simp
  from classify_kmeans_two [OF m h]
  obtain labelled where l: "classify_kmeans ?be ?ndwi ?aoi 2 = Inr labelled" by auto
  then obtain flood where f: "classify_and_mask ?be ?aoi no_water mosaic_2023_07_16 = Inr flood"
    by (simp add: classify_and_mask_def then_do_def Let_def)
  have t: "props flood ''system:time_start'' = Some (PNum 1689465600000)"
    unfolding classify_and_mask_props [OF f] by (simp add: mosaic_2023_07_16_def)
  have "image_get (process_image ?be ?aoi 100 flood) ''system:time_start''
      = Some (PNum 1689465600000)"
    using t
    by (simp add: image_get_def process_image_def Let_def image_set_def toFloat_def
        selfMask_def updateMask_def rename_def clip_def)
  with date_property_not_carried [OF f, of 100] d f show ?thesis by simp
qed

section \<open>Verification: coverage of the daily mosaics\<close>












section \<open>Verification: input validation of the pipeline\<close>

lemma parse_error_is_ValueError:
  assumes "parse d = Inl e"
  shows "e = ValueError"
  using assms unfolding parse_def by (auto split: option.splits if_splits)

lemma get_date_ranges_parse_error:
  assumes "parse d = Inl e"
  shows "get_date_ranges d lag a b = Inl e"
  using assms by (simp add: get_date_ranges_def then_do_def)

lemma ensure_ee_initialized_probe:
  "hd (fst (ensure_ee_initialized s)) = GetInfoProbe"
  by (simp add: ensure_ee_initialized_def)

text \<open>
  Claim C5, as the code has it. \<^verbatim>\<open>opticflood_s2\<close> first probes the service
  (\<^verbatim>\<open>ee.Number(1).getInfo()\<close>) and only then derives the date ranges. In a run whose
  session is established, an event date string that \<^verbatim>\<open>strptime\<close> rejects makes the run
  fail with \<^verbatim>\<open>ValueError\<close>, after the probe and before any collection is built. The lag
  and the minimum area are not validated: whenever \<^verbatim>\<open>get_date_ranges\<close> returns the four
  dates, also for a negative lag, the run returns the collection built from them, whatever
  the minimum area.
\<close>

theorem opticflood_s2_validates_date_only:
  assumes "snd (ensure_ee_initialized s) = Inr ()"
  shows "fst (opticflood_s2 s be aoi d lag ct ma ur am) = fst (ensure_ee_initialized s)
     \<and> hd (fst (opticflood_s2 s be aoi d lag ct ma ur am)) = GetInfoProbe
     \<and> (isl (parse d) \<longrightarrow> snd (opticflood_s2 s be aoi d lag ct ma ur am) = Inl ValueError)
     \<and> (\<forall>r. get_date_ranges d lag 30 1 = Inr r \<longrightarrow>
           snd (opticflood_s2 s be aoi d lag ct ma ur am)
             = Inr (flood_collection be aoi r ct ma ur am))"
proof -
  have f: "fst (opticflood_s2 s be aoi d lag ct ma ur am) = fst (ensure_ee_initialized s)"
    by (simp add: opticflood_s2_def Let_def)
  have s: "snd (opticflood_s2 s be aoi d lag ct ma ur am)
      = then_do (get_date_ranges d lag 30 1)
          (\<lambda>ranges. Inr (flood_collection be aoi ranges ct ma ur am))"
    using assms by (simp add: opticflood_s2_def Let_def then_do_def)
  have "snd (opticflood_s2 s be aoi d lag ct ma ur am) = Inl ValueError" if "isl (parse d)"
  proof -
    from that obtain e where e: "parse d = Inl e" by (cases "parse d") auto
    then have "get_date_ranges d lag 30 1 = Inl ValueError"
      using get_date_ranges_parse_error [OF e] parse_error_is_ValueError [OF e] by simp
    then show ?thesis unfolding s by (simp add: then_do_def)
  qed
  moreover have "snd (opticflood_s2 s be aoi d lag ct ma ur am)
      = Inr (flood_collection be aoi r ct ma ur am)"
    if "get_date_ranges d lag 30 1 = Inr r" for r
    unfolding s using that by (simp add: then_do_def)
  ultimately show ?thesis using f ensure_ee_initialized_probe [of s] by simp
qed

text \<open>
  In an established session, the date \<^verbatim>\<open>2023/07/15\<close> fails with \<^verbatim>\<open>ValueError\<close> after the
  probe, and the date \<^verbatim>\<open>2023-07-15\<close> with a lag of -3 and a minimum area of 0 returns the
  collection for the post-event window from 2023-07-16 to 2023-07-12.
\<close>

theorem opticflood_s2_validates_date_only_witness:
  "snd (ensure_ee_initialized ready_session) = Inr ()
   \<and> opticflood_s2 ready_session (grid_backend single_cluster) [(0, 0)] ''2023/07/15'' 10 60
        10000 True None = ([GetInfoProbe], Inl ValueError)
   \<and> opticflood_s2 ready_session (grid_backend single_cluster) [(0, 0)] ''2023-07-15'' (- 3) 60
        0 True None
      = ([GetInfoProbe],
         Inr (flood_collection (grid_backend single_cluster) [(0, 0)]
                (''2023-07-16'', ''2023-07-12'', ''2023-06-15'', ''2023-07-14'') 60 0 True None))"
proof -
  let ?be = "grid_backend single_cluster"
  have i: "snd (ensure_ee_initialized ready_session) = Inr ()"
    by (simp add: ensure_ee_initialized_def ready_session_def)
  have c: "fst (ensure_ee_initialized ready_session) = [GetInfoProbe]"
    by (simp add: ensure_ee_initialized_def ready_session_def)
  have p: "isl (parse ''2023/07/15'')" by (simp add: date_eval)
  have g: "get_date_ranges ''2023-07-15'' (- 3) 30 1
      = Inr (''2023-07-16'', ''2023-07-12'', ''2023-06-15'', ''2023-07-14'')"
    by (simp add: date_eval)
  have a: "opticflood_s2 ready_session ?be [(0, 0)] ''2023/07/15'' 10 60 10000 True None
      = ([GetInfoProbe], Inl ValueError)"
    using opticflood_s2_validates_date_only [OF i, of ?be "[(0, 0)]" "''2023/07/15''" 10 60
        10000 True None] c p
    by (simp add: prod_eq_iff)
  have b: "opticflood_s2 ready_session ?be [(0, 0)] ''2023-07-15'' (- 3) 60 0 True None
      = ([GetInfoProbe],
         Inr (flood_collection ?be [(0, 0)]
                (''2023-07-16'', ''2023-07-12'', ''2023-06-15'', ''2023-07-14'') 60 0 True None))"
    using opticflood_s2_validates_date_only [OF i, of ?be "[(0, 0)]" "''2023-07-15''" "- 3" 60
        0 True None] c g
    by (simp add: prod_eq_iff)
  from i a b show ?thesis by simp
qed

text \<open>
  The claim as the specification words it fails: a negative lag does not make the run
  fail, a minimum area of 0 does not either, and the run with a malformed date has sent
  the probe to the service before it fails.
\<close>

theorem opticflood_s2_no_validation_counterexample:
  "\<not> isl (snd (opticflood_s2 ready_session (grid_backend single_cluster) [(0, 0)]
               ''2023-07-15'' (- 3) 60 10000 True None))
   \<and> \<not> isl (snd (opticflood_s2 ready_session (grid_backend single_cluster) [(0, 0)]
               ''2023-07-15'' 10 60 0 True None))
   \<and> fst (opticflood_s2 ready_session (grid_backend single_cluster) [(0, 0)]
               ''2023/07/15'' 10 60 10000 True None) = [GetInfoProbe]"
  by (simp add: opticflood_s2_def ensure_ee_initialized_def ready_session_def date_eval)

end
